theory Spec2Isabelle
  imports Main "HOL-Library.AList" "HOL-Library.Multiset"
begin

section \<open>Python values\<close>

text \<open>
  A cell of the input table holds what the DataFrame holds there: a string, an integer,
  a float that is a whole number (\<open>CFloat i\<close> is the double equal to \<open>i\<close>), or the
  float NaN that pandas uses for a missing value. Floats with a fractional part and
  infinities are not modelled.
\<close>

datatype cell = CStr string | CInt int | CFloat int | CNaN

text \<open>
  Values that travel in request payloads and in decoded JSON response bodies. A Python
  dict keeps insertion order and has unique keys: it is an association list.
\<close>

datatype pyval =
    PNone
  | PBool bool
  | PInt int
  | PStr string
  | PList "pyval list"
  | PDict "(string \<times> pyval) list"

record response =
  status_code :: nat
  json_body :: "pyval option"
  content :: string

datatype error =
    Exception string
  | HTTPError response
  | RequestException string
  | UnboundLocalError string
  | KeyError string
  | IndexError
  | TypeError
  | AttributeError string
  | JSONDecodeError
  | FileExistsError string
  | FileNotFoundError string
  | NotADirectoryError string
  | IsADirectoryError string

subsection \<open>String formatting\<close>

definition digit_char :: "int \<Rightarrow> char" where
  "digit_char d = char_of (48 + d)"

text \<open>The decimal digits of a whole number that is not negative.\<close>

function str_digits :: "int \<Rightarrow> string" where
  "str_digits n =
     (if n < 10 then [digit_char n] else str_digits (n div 10) @ [digit_char (n mod 10)])"
  by pat_completeness auto
termination
  by (relation "measure nat") auto

declare str_digits.simps [simp del]

definition str_int :: "int \<Rightarrow> string" where
  "str_int i = (if i < 0 then CHR ''-'' # str_digits (- i) else str_digits i)"

text \<open>
  The double nearest to a whole number, ties to the even mantissa: the conversion of an
  integer to float64. Whole numbers of at most 53 bits are doubles themselves.
\<close>

function bit_length :: "int \<Rightarrow> nat" where
  "bit_length n = (if n \<le> 0 then 0 else Suc (bit_length (n div 2)))"
  by pat_completeness auto
termination
  by (relation "measure nat") auto

declare bit_length.simps [simp del]

definition round_double :: "int \<Rightarrow> int" where
  "round_double n =
     (if bit_length n \<le> 53 then n
      else (let s = bit_length n - 53; q = n div 2 ^ s; r = n mod 2 ^ s; h = 2 ^ (s - 1)
            in if h < r \<or> (r = h \<and> odd q) then (q + 1) * 2 ^ s else q * 2 ^ s))"

definition float_of_int :: "int \<Rightarrow> int" where
  "float_of_int i = (if i < 0 then - round_double (- i) else round_double i)"

text \<open>
  The string of a float that is a whole number. Below ten to the sixteenth Python writes
  the digits and \<^verbatim>\<open>.0\<close>. From there on it writes the shortest decimal that reads back
  as the same double, in exponent notation: \<open>shortest_decimal x k\<close> looks for a multiple
  of a power of ten that rounds to \<open>x\<close>, from the \<open>k\<close>-th power downwards, and takes
  the nearer one when the multiples below and above both do.
\<close>

fun shortest_decimal :: "int \<Rightarrow> nat \<Rightarrow> int" where
  "shortest_decimal x 0 = x"
| "shortest_decimal x (Suc k) =
     (let u = 10 ^ Suc k; lo = (x div u) * u; hi = lo + u
      in if round_double lo = x \<and> round_double hi = x
         then (if x - lo \<le> hi - x then lo else hi)
         else if round_double lo = x then lo
         else if round_double hi = x then hi
         else shortest_decimal x k)"

definition strip_zeros :: "string \<Rightarrow> string" where
  "strip_zeros ds = rev (dropWhile (\<lambda>c. c = CHR ''0'') (rev ds))"

definition str_exponent :: "int \<Rightarrow> string" where
  "str_exponent d =
     (let ds = str_digits d; e = int (length ds) - 1; m = strip_zeros ds
      in take 1 m @ (if length m \<le> 1 then [] else CHR ''.'' # drop 1 m)
         @ ''e+'' @ (if e < 10 then ''0'' else []) @ str_digits e)"

definition str_float_abs :: "int \<Rightarrow> string" where
  "str_float_abs n =
     (if n < 10 ^ 16 then str_digits n @ ''.0''
      else str_exponent (shortest_decimal n (length (str_digits n))))"

definition str_float :: "int \<Rightarrow> string" where
  "str_float i = (if i < 0 then CHR ''-'' # str_float_abs (- i) else str_float_abs i)"

text \<open>The f-string \<^verbatim>\<open>f"{v}"\<close> of a cell.\<close>

fun str_cell :: "cell \<Rightarrow> string" where
  "str_cell (CStr s) = s"
| "str_cell (CInt i) = str_int i"
| "str_cell (CFloat i) = str_float i"
| "str_cell CNaN = ''nan''"

text \<open>
  The f-string of a decoded JSON value. Strings, integers, booleans and None are
  rendered as Python does; lists and dicts are rendered through \<open>repr\<close>, which is
  taken as a parameter.
\<close>

fun py_format :: "(pyval \<Rightarrow> string) \<Rightarrow> pyval \<Rightarrow> string" where
  "py_format repr PNone = ''None''"
| "py_format repr (PBool b) = (if b then ''True'' else ''False'')"
| "py_format repr (PInt i) = str_int i"
| "py_format repr (PStr s) = s"
| "py_format repr (PList xs) = repr (PList xs)"
| "py_format repr (PDict kvs) = repr (PDict kvs)"

section \<open>The input table\<close>

text \<open>
  A DataFrame has column labels, a dtype for each column, and rows. A row maps a column
  label to its cell; a label of the frame that the row does not map is a missing value.
  Rows keep their position: the list order is the frame's row order. An \<open>Int64\<close> column
  holds integers, a \<open>Float64\<close> column holds floats (NaN among them), an \<open>Object\<close>
  column holds any Python objects.
\<close>

type_synonym row = "string \<rightharpoonup> cell"

datatype dtype = Int64 | Float64 | Object

record dataframe =
  columns :: "string list"
  dtypes :: "string \<Rightarrow> dtype"
  rows :: "row list"

definition cell_at :: "row \<Rightarrow> string \<Rightarrow> cell" where
  "cell_at r c = (case r c of None \<Rightarrow> CNaN | Some v \<Rightarrow> v)"

text \<open>\<^verbatim>\<open>row[k]\<close> on a row Series yielded by \<^verbatim>\<open>iterrows()\<close>.\<close>

definition series_get :: "string list \<Rightarrow> row \<Rightarrow> string \<Rightarrow> error + cell" where
  "series_get cols r k = (if k \<in> set cols then Inr (cell_at r k) else Inl (KeyError k))"

text \<open>
  \<^verbatim>\<open>iterrows()\<close> yields each row as a Series of one dtype, the common dtype of the
  frame's columns: the columns' own when they agree, float64 when integer and float
  columns meet, object when any column is of dtype object. In a float64 row the integers
  have become floats.
\<close>

definition row_dtype :: "dataframe \<Rightarrow> dtype" where
  "row_dtype df =
     (if list_ex (\<lambda>c. dtypes df c = Object) (columns df) then Object
      else if list_ex (\<lambda>c. dtypes df c = Float64) (columns df) then Float64
      else Int64)"

fun upcast :: "dtype \<Rightarrow> cell \<Rightarrow> cell" where
  "upcast Float64 (CInt i) = CFloat (float_of_int i)"
| "upcast d v = v"

definition iterrows :: "dataframe \<Rightarrow> row list" where
  "iterrows df = map (\<lambda>r. map_option (upcast (row_dtype df)) \<circ> r) (rows df)"

text \<open>
  Python's \<^verbatim>\<open>==\<close> and hash see an integer and the float of the same value as one
  key. Elementwise \<^verbatim>\<open>==\<close>: NaN equals nothing, itself included.
\<close>

fun py_key :: "cell \<Rightarrow> cell" where
  "py_key (CFloat i) = CInt i"
| "py_key v = v"

definition py_eq :: "cell \<Rightarrow> cell \<Rightarrow> bool" where
  "py_eq a b = (a \<noteq> CNaN \<and> b \<noteq> CNaN \<and> py_key a = py_key b)"

text \<open>\<^verbatim>\<open>dataset[c]\<close>: the column as a list of cells.\<close>

definition getitem :: "dataframe \<Rightarrow> string \<Rightarrow> error + cell list" where
  "getitem df c =
     (if c \<in> set (columns df) then Inr (map (\<lambda>r. cell_at r c) (rows df))
      else Inl (KeyError c))"

text \<open>\<^verbatim>\<open>dataset.loc[dataset[c] == v]\<close>: a new frame holding the rows selected by the mask.\<close>

definition loc_eq :: "dataframe \<Rightarrow> string \<Rightarrow> cell \<Rightarrow> error + dataframe" where
  "loc_eq df c v =
     (if c \<in> set (columns df)
      then Inr (df\<lparr>rows := filter (\<lambda>r. py_eq (cell_at r c) v) (rows df)\<rparr>)
      else Inl (KeyError c))"

text \<open>
  \<^verbatim>\<open>Series.unique()\<close>: the distinct values in order of first appearance; the hash
  table behind it keeps a single NaN, and the first of an integer and a float of the
  same value.
\<close>

fun unique_from :: "cell list \<Rightarrow> cell list \<Rightarrow> cell list" where
  "unique_from seen [] = []"
| "unique_from seen (x # xs) =
     (if py_key x \<in> set (map py_key seen) then unique_from seen xs
      else x # unique_from (seen @ [x]) xs)"

definition unique :: "cell list \<Rightarrow> cell list" where
  "unique xs = unique_from [] xs"

section \<open>URL Request Builder\<close>

text \<open>
  The loop body of \<^verbatim>\<open>_preprocess_urls\<close> for one row. The local \<^verbatim>\<open>id_string\<close> is
  assigned only on the \<^verbatim>\<open>pass_id_as_argument\<close> branch and read after the branch:
  \<open>None\<close> is the unbound local.
\<close>

definition url_record :: "string \<Rightarrow> string \<Rightarrow> pyval" where
  "url_record i u = PDict [(''id'', PStr i), (''url_type'', PStr ''URL''), (''url'', PStr u)]"

definition row_step ::
  "string \<Rightarrow> string \<Rightarrow> bool \<Rightarrow> string list \<Rightarrow> string option \<Rightarrow> row
     \<Rightarrow> error + (pyval \<times> string option)" where
  "row_step id_column_name redirect_url pass_id_as_argument cols id_string r =
     (case (if pass_id_as_argument
            then (case series_get cols r id_column_name of
                    Inl e \<Rightarrow> Inl e
                  | Inr v \<Rightarrow> Inr (Some id_column_name, redirect_url @ ''/id='' @ str_cell v))
            else Inr (id_string, redirect_url)) of
        Inl e \<Rightarrow> Inl e
      | Inr (id_string', url_string) \<Rightarrow>
          (case id_string' of
             None \<Rightarrow> Inl (UnboundLocalError ''id_string'')
           | Some k \<Rightarrow>
               (case series_get cols r k of
                  Inl e \<Rightarrow> Inl e
                | Inr v \<Rightarrow> Inr (url_record (str_cell v) url_string, id_string'))))"

fun rows_loop ::
  "string \<Rightarrow> string \<Rightarrow> bool \<Rightarrow> string list \<Rightarrow> string option \<Rightarrow> row list
     \<Rightarrow> error + (pyval list \<times> string option)" where
  "rows_loop idc redirect flag cols id_string [] = Inr ([], id_string)"
| "rows_loop idc redirect flag cols id_string (r # rs) =
     (case row_step idc redirect flag cols id_string r of
        Inl e \<Rightarrow> Inl e
      | Inr (rec, id_string') \<Rightarrow>
          (case rows_loop idc redirect flag cols id_string' rs of
             Inl e \<Rightarrow> Inl e
           | Inr (recs, id_string'') \<Rightarrow> Inr (rec # recs, id_string'')))"

fun frames_loop ::
  "string \<Rightarrow> string \<Rightarrow> bool \<Rightarrow> string option \<Rightarrow> dataframe list \<Rightarrow> error + pyval list list" where
  "frames_loop idc redirect flag id_string [] = Inr []"
| "frames_loop idc redirect flag id_string (campaign # rest) =
     (case rows_loop idc redirect flag (columns campaign) id_string (iterrows campaign) of
        Inl e \<Rightarrow> Inl e
      | Inr (campaign_list, id_string') \<Rightarrow>
          (case frames_loop idc redirect flag id_string' rest of
             Inl e \<Rightarrow> Inl e
           | Inr flowcodes \<Rightarrow> Inr (campaign_list # flowcodes)))"

text \<open>The first loop: one frame per campaign, in the order of the campaign list.\<close>

fun campaign_data :: "dataframe \<Rightarrow> string \<Rightarrow> cell list \<Rightarrow> error + dataframe list" where
  "campaign_data dataset cc [] = Inr []"
| "campaign_data dataset cc (campaign # rest) =
     (case loc_eq dataset cc campaign of
        Inl e \<Rightarrow> Inl e
      | Inr part \<Rightarrow>
          (case campaign_data dataset cc rest of
             Inl e \<Rightarrow> Inl e
           | Inr parts \<Rightarrow> Inr (part # parts)))"

definition preprocess_urls ::
  "cell list \<Rightarrow> string \<Rightarrow> string \<Rightarrow> string \<Rightarrow> dataframe \<Rightarrow> bool \<Rightarrow> error + pyval list list" where
  "preprocess_urls campaigns id_column_name campaign_column_name redirect_url dataset
       pass_id_as_argument =
     (case campaign_data dataset campaign_column_name campaigns of
        Inl e \<Rightarrow> Inl e
      | Inr parts \<Rightarrow> frames_loop id_column_name redirect_url pass_id_as_argument None parts)"

section \<open>Input Validator\<close>

text \<open>
  \<^verbatim>\<open>re.fullmatch\<close> of the pattern
  \<^verbatim>\<open>[a-z0-9]{8}-[a-z0-9]{4}-[a-z0-9]{4}-[a-z0-9]{4}-[a-z0-9]{12}\<close>:
  groups of characters of one class, of the given lengths, separated by single dashes,
  and nothing before or after.
\<close>

fun take_class :: "(char \<Rightarrow> bool) \<Rightarrow> nat \<Rightarrow> string \<Rightarrow> string option" where
  "take_class P 0 s = Some s"
| "take_class P (Suc n) [] = None"
| "take_class P (Suc n) (c # cs) = (if P c then take_class P n cs else None)"

fun match_groups :: "(char \<Rightarrow> bool) \<Rightarrow> nat list \<Rightarrow> string \<Rightarrow> bool" where
  "match_groups P [] s = False"
| "match_groups P [n] s = (take_class P n s = Some [])"
| "match_groups P (n # ns) s =
     (case take_class P n s of
        Some (c # rest) \<Rightarrow> c = CHR ''-'' \<and> match_groups P ns rest
      | _ \<Rightarrow> False)"

definition lower_alnum :: "char \<Rightarrow> bool" where
  "lower_alnum c = (c \<in> set ''abcdefghijklmnopqrstuvwxyz0123456789'')"

definition regex_fullmatch :: "string \<Rightarrow> bool" where
  "regex_fullmatch s = match_groups lower_alnum [8, 4, 4, 4, 12] s"

text \<open>The spec's wording of the pattern: 8-4-4-4-12 groups of lowercase hexadecimal digits.\<close>

definition lower_hex :: "char \<Rightarrow> bool" where
  "lower_hex c = (c \<in> set ''0123456789abcdef'')"

definition canonical_uuid :: "string \<Rightarrow> bool" where
  "canonical_uuid s = match_groups lower_hex [8, 4, 4, 4, 12] s"

text \<open>An object on the heap: a DataFrame, or anything else.\<close>

datatype obj = DataFrame dataframe | OtherObject

fun type_name :: "pyval \<Rightarrow> string" where
  "type_name PNone = ''NoneType''"
| "type_name (PBool b) = ''bool''"
| "type_name (PInt i) = ''int''"
| "type_name (PStr s) = ''str''"
| "type_name (PList xs) = ''list''"
| "type_name (PDict kvs) = ''dict''"

definition error_checking :: "pyval \<Rightarrow> obj \<Rightarrow> string \<Rightarrow> string \<Rightarrow> error + unit" where
  "error_checking client_id dataset id_column_name campaign_column_name =
     (case client_id of
        PStr s \<Rightarrow>
          (if \<not> regex_fullmatch s
           then Inl (Exception (''Your client id doesn't look like it's the right format''
                                @ ''(aaaaaaaa-aaaa-aaaa-aaaa-aaaaaaaaaaaa)''))
           else (case dataset of
                   OtherObject \<Rightarrow> Inl (Exception ''The dataset argument must be a Pandas Dataframe'')
                 | DataFrame df \<Rightarrow>
                     (if id_column_name \<notin> set (columns df)
                      then Inl (Exception (''The id column is not specified correctly. ''
                                @ [CHR 0x0A] @ ''Make sure it's a name, not an index!''))
                      else if campaign_column_name \<notin> set (columns df)
                      then Inl (Exception (''The campaigns column is not specified correctly. ''
                                @ [CHR 0x0A] @ ''Make sure it's a name, not an index!''))
                      else Inr ())))
      | _ \<Rightarrow> Inl (Exception (''The client id must be a string, but is a: <class ''
                              @ [CHR 0x27] @ type_name client_id @ [CHR 0x27] @ ''>'')))"

section \<open>The outside world\<close>

text \<open>
  The run talks to a remote service and to the file system. Both are explicit: the world
  carries the trace of everything done so far, the heap of objects the caller holds, and
  the directories and files on disk. The remote service is any function from the trace
  so far and the request to what \<^verbatim>\<open>requests\<close> gives back: a response, or an exception
  other than \<^verbatim>\<open>HTTPError\<close> raised by the call itself. Output printed to the console
  is not modelled.
\<close>

datatype request =
    Post_form string "(string \<times> pyval) list"
  | Post_json string pyval
  | Get pyval

datatype http_result = Resp response | NetErr string

datatype event = Http request http_result | Mkdir string | Write string string

type_synonym server = "event list \<Rightarrow> request \<Rightarrow> http_result"

record world =
  trace :: "event list"
  heap :: "obj list"
  dirs :: "string list set"
  files :: "string list \<rightharpoonup> string"
  cwd :: string

definition send :: "server \<Rightarrow> request \<Rightarrow> world \<Rightarrow> http_result \<times> world" where
  "send srv rq w = (srv (trace w) rq, w\<lparr>trace := trace w @ [Http rq (srv (trace w) rq)]\<rparr>)"

text \<open>\<^verbatim>\<open>raise_for_status()\<close> raises for the statuses 400 to 599.\<close>

definition is_http_error :: "response \<Rightarrow> bool" where
  "is_http_error r = (400 \<le> status_code r \<and> status_code r < 600)"

subsection \<open>File system\<close>

text \<open>
  A POSIX file system without symbolic links, permissions or other processes. A
  directory or file is known by the list of names that leads to it from the root; the
  root is the empty list and always a directory. A path string is resolved name by
  name, from the root when it starts with a separator and from the current directory
  otherwise: an empty name and \<^verbatim>\<open>.\<close> stay, \<^verbatim>\<open>..\<close> goes up, and any other name must
  be a directory for the walk to go on.
\<close>

fun split_path :: "string \<Rightarrow> string list" where
  "split_path [] = [[]]"
| "split_path (c # cs) =
     (if c = CHR ''/'' then [] # split_path cs
      else (case split_path cs of [] \<Rightarrow> [[c]] | x # xs \<Rightarrow> (c # x) # xs))"

definition start_dir :: "world \<Rightarrow> string \<Rightarrow> string list" where
  "start_dir w p =
     (if take 1 p = ''/'' then [] else filter (\<lambda>c. c \<noteq> []) (split_path (cwd w)))"

fun walk :: "world \<Rightarrow> string \<Rightarrow> string list \<Rightarrow> string list \<Rightarrow> error + string list" where
  "walk w p cur [] = Inr cur"
| "walk w p cur (c # cs) =
     (if c = [] \<or> c = ''.'' then walk w p cur cs
      else if c = ''..'' then walk w p (butlast cur) cs
      else if cur @ [c] \<in> dirs w then walk w p (cur @ [c]) cs
      else if cur @ [c] \<in> dom (files w) then Inl (NotADirectoryError p)
      else Inl (FileNotFoundError p))"

text \<open>The names of a path without the empty names that trailing separators leave.\<close>

definition strip_slashes :: "string list \<Rightarrow> string list" where
  "strip_slashes cs = rev (dropWhile (\<lambda>c. c = []) (rev cs))"

text \<open>
  \<^verbatim>\<open>os.path.exists\<close>: the whole path resolves; a trailing separator asks for a
  directory.
\<close>

definition path_exists :: "world \<Rightarrow> string \<Rightarrow> bool" where
  "path_exists w p =
     (p \<noteq> [] \<and>
      (case walk w p (start_dir w p) (butlast (split_path p)) of
         Inl e \<Rightarrow> False
       | Inr dir \<Rightarrow>
           last (split_path p) = [] \<or> last (split_path p) = ''.''
           \<or> last (split_path p) = ''..''
           \<or> dir @ [last (split_path p)] \<in> dirs w
           \<or> dir @ [last (split_path p)] \<in> dom (files w)))"

text \<open>
  \<^verbatim>\<open>os.mkdir\<close>: the parent must resolve; the call fails when the last name is there
  already, as a directory or as a file.
\<close>

definition mkdir :: "string \<Rightarrow> world \<Rightarrow> (error + unit) \<times> world" where
  "mkdir p w =
     (if p = [] then (Inl (FileNotFoundError p), w)
      else if strip_slashes (split_path p) = [] then (Inl (FileExistsError p), w)
      else
        (case walk w p (start_dir w p) (butlast (strip_slashes (split_path p))) of
           Inl e \<Rightarrow> (Inl e, w)
         | Inr dir \<Rightarrow>
             (if last (strip_slashes (split_path p)) = ''.''
                 \<or> last (strip_slashes (split_path p)) = ''..''
                 \<or> dir @ [last (strip_slashes (split_path p))] \<in> dirs w
                 \<or> dir @ [last (strip_slashes (split_path p))] \<in> dom (files w)
              then (Inl (FileExistsError p), w)
              else (Inr (), w\<lparr>trace := trace w @ [Mkdir p],
                             dirs := insert (dir @ [last (strip_slashes (split_path p))])
                                       (dirs w)\<rparr>))))"

text \<open>
  \<^verbatim>\<open>open(p, 'wb')\<close>, one \<^verbatim>\<open>write\<close>, and the close at the end of the \<^verbatim>\<open>with\<close> block.
  The file is created or replaced; a path that names a directory, or ends in a
  separator, cannot be opened for writing.
\<close>

definition write_file :: "string \<Rightarrow> string \<Rightarrow> world \<Rightarrow> (error + unit) \<times> world" where
  "write_file p bytes w =
     (if p = [] then (Inl (FileNotFoundError p), w)
      else if strip_slashes (split_path p) = [] then (Inl (IsADirectoryError p), w)
      else
        (case walk w p (start_dir w p) (butlast (strip_slashes (split_path p))) of
           Inl e \<Rightarrow> (Inl e, w)
         | Inr dir \<Rightarrow>
             (if last (split_path p) = []
                 \<or> last (strip_slashes (split_path p)) = ''.''
                 \<or> last (strip_slashes (split_path p)) = ''..''
                 \<or> dir @ [last (strip_slashes (split_path p))] \<in> dirs w
              then (Inl (IsADirectoryError p), w)
              else (Inr (), w\<lparr>trace := trace w @ [Write p bytes],
                             files := (files w)(dir @ [last (strip_slashes (split_path p))]
                                         \<mapsto> bytes)\<rparr>))))"

section \<open>Campaign Provisioner\<close>

definition campaign_url :: string where
  "campaign_url = ''https://api.flowcode.com/v2/flowcode/batch/bulk-campaign''"

definition campaign_request :: "pyval \<Rightarrow> bool \<Rightarrow> cell \<Rightarrow> request" where
  "campaign_request client_id reserved_urls campaign =
     Post_form campaign_url
       [(''name'', PStr (str_cell campaign)),
        (''display_name'', PStr (str_cell campaign @ '' display'')),
        (''client_id'', client_id),
        (''reserved_urls_unique'', PBool reserved_urls)]"

text \<open>
  The loop of \<^verbatim>\<open>_generate_campaigns\<close>. Only \<^verbatim>\<open>HTTPError\<close> is caught; of those only
  status 409 is swallowed. The parameters \<^verbatim>\<open>id_column_name\<close>,
  \<^verbatim>\<open>campaign_column_name\<close> and \<^verbatim>\<open>dataset\<close> are not used by the source function.
\<close>

fun campaigns_loop :: "server \<Rightarrow> pyval \<Rightarrow> bool \<Rightarrow> cell list \<Rightarrow> world \<Rightarrow> (error + unit) \<times> world" where
  "campaigns_loop srv client_id reserved_urls [] w = (Inr (), w)"
| "campaigns_loop srv client_id reserved_urls (campaign # rest) w =
     (case send srv (campaign_request client_id reserved_urls campaign) w of
        (NetErr x, w') \<Rightarrow> (Inl (RequestException x), w')
      | (Resp r, w') \<Rightarrow>
          (if is_http_error r
           then (if status_code r = 409
                 then campaigns_loop srv client_id reserved_urls rest w'
                 else (Inl (HTTPError r), w'))
           else campaigns_loop srv client_id reserved_urls rest w'))"

definition generate_campaigns ::
  "server \<Rightarrow> cell list \<Rightarrow> pyval \<Rightarrow> bool \<Rightarrow> world \<Rightarrow> (error + cell list) \<times> world" where
  "generate_campaigns srv campaigns client_id reserved_urls w =
     (case campaigns_loop srv client_id reserved_urls campaigns w of
        (Inl e, w') \<Rightarrow> (Inl e, w')
      | (Inr u, w') \<Rightarrow> (Inr campaigns, w'))"

section \<open>Code Generator Client\<close>

definition codes_url :: string where
  "codes_url = ''https://api.flowcode.com/v2/flowcode/batch/bulk''"

definition codes_data ::
  "pyval \<Rightarrow> string \<Rightarrow> pyval list \<Rightarrow> (string \<times> pyval) list \<Rightarrow> pyval" where
  "codes_data client_id campaign_name urls smart_rules =
     (if smart_rules \<noteq> []
      then PDict [(''client_id'', client_id),
                  (''campaign_name'', PStr campaign_name),
                  (''urls'', PList urls),
                  (''smart_rules'', PDict smart_rules)]
      else PDict [(''client_id'', client_id),
                  (''campaign_name'', PStr campaign_name),
                  (''urls'', PList urls)])"

text \<open>
  The loop of \<^verbatim>\<open>_generate_urls\<close> over \<^verbatim>\<open>enumerate(flowcodes)\<close>. The campaign list is
  read by position only for a non-empty sequence; reading past its end raises.
  \<^verbatim>\<open>responses\<close> is a dict: assigning a key that is present replaces its value.
\<close>

fun urls_loop ::
  "server \<Rightarrow> cell list \<Rightarrow> pyval \<Rightarrow> (string \<times> pyval) list \<Rightarrow> nat \<Rightarrow> pyval list list
     \<Rightarrow> (string \<times> response) list \<Rightarrow> world \<Rightarrow> (error + (string \<times> response) list) \<times> world" where
  "urls_loop srv campaigns client_id smart_rules index [] responses w = (Inr responses, w)"
| "urls_loop srv campaigns client_id smart_rules index (val # rest) responses w =
     (if val = [] then urls_loop srv campaigns client_id smart_rules (Suc index) rest responses w
      else if \<not> index < length campaigns then (Inl IndexError, w)
      else
        (case send srv (Post_json codes_url
                (codes_data client_id (str_cell (campaigns ! index)) val smart_rules)) w of
           (NetErr x, w') \<Rightarrow> (Inl (RequestException x), w')
         | (Resp r, w') \<Rightarrow>
             (if is_http_error r
              then (if status_code r = 409
                    then urls_loop srv campaigns client_id smart_rules (Suc index) rest responses w'
                    else (Inl (HTTPError r), w'))
              else urls_loop srv campaigns client_id smart_rules (Suc index) rest
                     (AList.update (str_cell (campaigns ! index)) r responses) w')))"

definition generate_urls ::
  "server \<Rightarrow> pyval list list \<Rightarrow> cell list \<Rightarrow> pyval \<Rightarrow> (string \<times> pyval) list \<Rightarrow> world
     \<Rightarrow> (error + (string \<times> response) list) \<times> world" where
  "generate_urls srv flowcodes campaigns client_id smart_rules w =
     urls_loop srv campaigns client_id smart_rules 0 flowcodes [] w"

section \<open>Response Processor\<close>

text \<open>Iteration, \<^verbatim>\<open>v[k]\<close> for a string key and \<^verbatim>\<open>v[0]\<close> on a decoded JSON value.\<close>

fun py_iter :: "pyval \<Rightarrow> error + pyval list" where
  "py_iter (PList xs) = Inr xs"
| "py_iter (PDict kvs) = Inr (map (\<lambda>kv. PStr (fst kv)) kvs)"
| "py_iter (PStr s) = Inr (map (\<lambda>c. PStr [c]) s)"
| "py_iter v = Inl TypeError"

fun py_getitem :: "pyval \<Rightarrow> string \<Rightarrow> error + pyval" where
  "py_getitem (PDict kvs) k = (case map_of kvs k of None \<Rightarrow> Inl (KeyError k) | Some v \<Rightarrow> Inr v)"
| "py_getitem v k = Inl TypeError"

fun py_first :: "pyval \<Rightarrow> error + pyval" where
  "py_first (PList []) = Inl IndexError"
| "py_first (PList (x # xs)) = Inr x"
| "py_first (PStr []) = Inl IndexError"
| "py_first (PStr (c # cs)) = Inr (PStr [c])"
| "py_first (PDict kvs) = Inl (KeyError ''0'')"
| "py_first v = Inl TypeError"

text \<open>\<^verbatim>\<open>{"id": url['id'], "qr_code": url['images'][0]['url']}\<close>, evaluated left to right.\<close>

definition url_entry :: "pyval \<Rightarrow> error + pyval" where
  "url_entry url =
     (case py_getitem url ''id'' of
        Inl e \<Rightarrow> Inl e
      | Inr i \<Rightarrow>
          (case py_getitem url ''images'' of
             Inl e \<Rightarrow> Inl e
           | Inr images \<Rightarrow>
               (case py_first images of
                  Inl e \<Rightarrow> Inl e
                | Inr img \<Rightarrow>
                    (case py_getitem img ''url'' of
                       Inl e \<Rightarrow> Inl e
                     | Inr u \<Rightarrow> Inr (PDict [(''id'', i), (''qr_code'', u)])))))"

fun url_entries :: "pyval list \<Rightarrow> error + pyval list" where
  "url_entries [] = Inr []"
| "url_entries (url # rest) =
     (case url_entry url of
        Inl e \<Rightarrow> Inl e
      | Inr x \<Rightarrow> (case url_entries rest of Inl e \<Rightarrow> Inl e | Inr xs \<Rightarrow> Inr (x # xs)))"

text \<open>The dict comprehension: every body is decoded before any is read.\<close>

fun readable_responses ::
  "(string \<times> response) list \<Rightarrow> (string \<times> pyval) list \<Rightarrow> error + (string \<times> pyval) list" where
  "readable_responses [] readable = Inr readable"
| "readable_responses ((campaign, r) # rest) readable =
     (case json_body r of
        None \<Rightarrow> Inl JSONDecodeError
      | Some v \<Rightarrow> readable_responses rest (AList.update campaign v readable))"

fun generated_loop ::
  "(string \<times> pyval) list \<Rightarrow> (string \<times> pyval list) list \<Rightarrow> error + (string \<times> pyval list) list" where
  "generated_loop [] generated_urls = Inr generated_urls"
| "generated_loop ((campaign, urls) # rest) generated_urls =
     (case py_iter urls of
        Inl e \<Rightarrow> Inl e
      | Inr us \<Rightarrow>
          (case url_entries us of
             Inl e \<Rightarrow> Inl e
           | Inr xs \<Rightarrow> generated_loop rest (AList.update campaign xs generated_urls)))"

definition process_url_responses ::
  "(string \<times> response) list \<Rightarrow> error + (string \<times> pyval list) list" where
  "process_url_responses responses =
     (case readable_responses responses [] of
        Inl e \<Rightarrow> Inl e
      | Inr readable \<Rightarrow> generated_loop readable [])"

section \<open>Image Materializer\<close>

text \<open>
  The body of the inner loop of \<^verbatim>\<open>_generate_svgs\<close>: one download and one file for
  an entry. Only an exception of the call itself stops the download: the status of the
  response is not looked at.
\<close>

definition save_entry ::
  "server \<Rightarrow> (pyval \<Rightarrow> string) \<Rightarrow> string \<Rightarrow> pyval \<Rightarrow> world \<Rightarrow> (error + unit) \<times> world" where
  "save_entry srv repr campaign_dir url_object w =
     (case py_getitem url_object ''id'' of
        Inl e \<Rightarrow> (Inl e, w)
      | Inr i \<Rightarrow>
          (case py_getitem url_object ''qr_code'' of
             Inl e \<Rightarrow> (Inl e, w)
           | Inr q \<Rightarrow>
               (case send srv (Get q) w of
                  (NetErr x, w') \<Rightarrow> (Inl (RequestException x), w')
                | (Resp r, w') \<Rightarrow>
                    write_file (campaign_dir @ ''/'' @ py_format repr i @ ''.svg'')
                      (content r) w')))"

fun svg_urls_loop ::
  "server \<Rightarrow> (pyval \<Rightarrow> string) \<Rightarrow> string \<Rightarrow> pyval list \<Rightarrow> world \<Rightarrow> (error + unit) \<times> world" where
  "svg_urls_loop srv repr campaign_dir [] w = (Inr (), w)"
| "svg_urls_loop srv repr campaign_dir (url_object # rest) w =
     (case save_entry srv repr campaign_dir url_object w of
        (Inl e, w') \<Rightarrow> (Inl e, w')
      | (Inr u, w') \<Rightarrow> svg_urls_loop srv repr campaign_dir rest w')"

fun svg_campaigns_loop ::
  "server \<Rightarrow> (pyval \<Rightarrow> string) \<Rightarrow> string \<Rightarrow> (string \<times> pyval list) list \<Rightarrow> world
     \<Rightarrow> (error + unit) \<times> world" where
  "svg_campaigns_loop srv repr root_dir [] w = (Inr (), w)"
| "svg_campaigns_loop srv repr root_dir ((campaign, urls) # rest) w =
     (case mkdir (root_dir @ ''/'' @ campaign) w of
        (Inl e, w') \<Rightarrow> (Inl e, w')
      | (Inr u, w') \<Rightarrow>
          (case svg_urls_loop srv repr (root_dir @ ''/'' @ campaign) urls w' of
             (Inl e, w'') \<Rightarrow> (Inl e, w'')
           | (Inr u', w'') \<Rightarrow> svg_campaigns_loop srv repr root_dir rest w''))"

definition generate_svgs ::
  "server \<Rightarrow> (pyval \<Rightarrow> string) \<Rightarrow> string \<Rightarrow> (string \<times> pyval list) list \<Rightarrow> world
     \<Rightarrow> (error + unit) \<times> world" where
  "generate_svgs srv repr parent_dir generated_urls w =
     (if \<not> path_exists w (parent_dir @ ''/flowcode_images'')
      then (case mkdir (parent_dir @ ''/flowcode_images'') w of
              (Inl e, w') \<Rightarrow> (Inl e, w')
            | (Inr u, w') \<Rightarrow>
                svg_campaigns_loop srv repr (parent_dir @ ''/flowcode_images'') generated_urls w')
      else svg_campaigns_loop srv repr (parent_dir @ ''/flowcode_images'') generated_urls w)"

section \<open>The pipeline\<close>

text \<open>
  The caller passes a reference to its table. An address beyond the heap stands for an
  argument that is no object of the heap, which is not a DataFrame either.
\<close>

definition deref :: "world \<Rightarrow> nat \<Rightarrow> obj" where
  "deref w a = (if a < length (heap w) then heap w ! a else OtherObject)"

text \<open>\<^verbatim>\<open>dataset.loc[:, [a, b]]\<close>: a new frame with the two columns.\<close>

definition select_columns :: "dataframe \<Rightarrow> string \<Rightarrow> string \<Rightarrow> error + dataframe" where
  "select_columns df a b =
     (if a \<notin> set (columns df) then Inl (KeyError a)
      else if b \<notin> set (columns df) then Inl (KeyError b)
      else Inr \<lparr>columns = [a, b], dtypes = dtypes df,
                 rows = map (\<lambda>r. r |` {a, b}) (rows df)\<rparr>)"

text \<open>
  \<^verbatim>\<open>dataset[c].unique()\<close> on the selected frame. When both column names are the same
  label, the selection holds that label twice, \<^verbatim>\<open>dataset[c]\<close> is a frame and has no
  \<^verbatim>\<open>unique\<close>.
\<close>

definition unique_campaigns :: "dataframe \<Rightarrow> string \<Rightarrow> string \<Rightarrow> error + cell list" where
  "unique_campaigns df id_column_name campaign_column_name =
     (if id_column_name = campaign_column_name then Inl (AttributeError ''unique'')
      else (case getitem df campaign_column_name of
              Inl e \<Rightarrow> Inl e
            | Inr col \<Rightarrow> Inr (unique col)))"

definition generate_flowcodes ::
  "server \<Rightarrow> (pyval \<Rightarrow> string) \<Rightarrow> pyval \<Rightarrow> string \<Rightarrow> string \<Rightarrow> string \<Rightarrow> nat
     \<Rightarrow> (string \<times> pyval) list \<Rightarrow> string \<Rightarrow> bool \<Rightarrow> world \<Rightarrow> (error + string) \<times> world" where
  "generate_flowcodes srv repr client_id id_column_name campaign_column_name redirect_url
       dataset smart_rules parent_dir pass_id_as_argument w =
     (case error_checking client_id (deref w dataset) id_column_name campaign_column_name of
        Inl e \<Rightarrow> (Inl e, w)
      | Inr u \<Rightarrow>
     (case deref w dataset of
        OtherObject \<Rightarrow> (Inl (AttributeError ''loc''), w)
      | DataFrame df \<Rightarrow>
     (case select_columns df id_column_name campaign_column_name of
        Inl e \<Rightarrow> (Inl e, w)
      | Inr selected \<Rightarrow>
     (case unique_campaigns selected id_column_name campaign_column_name of
        Inl e \<Rightarrow> (Inl e, w\<lparr>heap := heap w @ [DataFrame selected]\<rparr>)
      | Inr campaigns \<Rightarrow>
     (case generate_campaigns srv campaigns client_id False
             (w\<lparr>heap := heap w @ [DataFrame selected]\<rparr>) of
        (Inl e, w1) \<Rightarrow> (Inl e, w1)
      | (Inr cs, w1) \<Rightarrow>
     (case preprocess_urls campaigns id_column_name campaign_column_name redirect_url
             selected pass_id_as_argument of
        Inl e \<Rightarrow> (Inl e, w1)
      | Inr flowcodes \<Rightarrow>
     (case generate_urls srv flowcodes campaigns client_id smart_rules w1 of
        (Inl e, w2) \<Rightarrow> (Inl e, w2)
      | (Inr responses, w2) \<Rightarrow>
     (case process_url_responses responses of
        Inl e \<Rightarrow> (Inl e, w2)
      | Inr generated_urls \<Rightarrow>
     (case generate_svgs srv repr (if parent_dir = [] then cwd w else parent_dir)
             generated_urls w2 of
        (Inl e, w3) \<Rightarrow> (Inl e, w3)
      | (Inr u', w3) \<Rightarrow> (Inr ''Flowcodes Generated'', w3))))))))))"

section \<open>The scenario of the specification\<close>

definition scenario :: dataframe where
  "scenario = \<lparr>columns = [''oid'', ''camp''], dtypes = (\<lambda>c. Object),
     rows = [[''oid'' \<mapsto> CStr ''x1'', ''camp'' \<mapsto> CStr ''A''],
             [''oid'' \<mapsto> CStr ''x2'', ''camp'' \<mapsto> CStr ''A'']]\<rparr>"

text \<open>A table whose only row has no campaign value.\<close>

definition nan_table :: dataframe where
  "nan_table = \<lparr>columns = [''oid'', ''camp''], dtypes = (\<lambda>c. Object),
     rows = [[''oid'' \<mapsto> CStr ''x1'', ''camp'' \<mapsto> CNaN]]\<rparr>"

text \<open>
  Tables of numbers: the sample of the source's own call, with integer ids and integer
  campaigns, and a table whose integer id stands beside a float campaign.
\<close>

definition ads_table :: dataframe where
  "ads_table = \<lparr>columns = [''ad_id'', ''xyz_campaign_id''], dtypes = (\<lambda>c. Int64),
     rows = [[''ad_id'' \<mapsto> CInt 708746, ''xyz_campaign_id'' \<mapsto> CInt 916],
             [''ad_id'' \<mapsto> CInt 1121100, ''xyz_campaign_id'' \<mapsto> CInt 1178],
             [''ad_id'' \<mapsto> CInt 708749, ''xyz_campaign_id'' \<mapsto> CInt 916]]\<rparr>"

definition upcast_table :: dataframe where
  "upcast_table = \<lparr>columns = [''oid'', ''camp''],
     dtypes = (\<lambda>c. if c = ''oid'' then Int64 else Float64),
     rows = [[''oid'' \<mapsto> CInt 1, ''camp'' \<mapsto> CFloat 5],
             [''oid'' \<mapsto> CInt 3, ''camp'' \<mapsto> CNaN]]\<rparr>"

section \<open>Reading the trace\<close>

text \<open>The requests sent, in order.\<close>

fun http_requests :: "event list \<Rightarrow> request list" where
  "http_requests [] = []"
| "http_requests (Http rq res # es) = rq # http_requests es"
| "http_requests (e # es) = http_requests es"

text \<open>The campaign a batch request is for: the \<^verbatim>\<open>campaign_name\<close> field of its payload.\<close>

fun campaign_name_of :: "request \<Rightarrow> string option" where
  "campaign_name_of (Post_json u (PDict kvs)) =
     (case map_of kvs ''campaign_name'' of Some (PStr n) \<Rightarrow> Some n | _ \<Rightarrow> None)"
| "campaign_name_of rq = None"

text \<open>The campaigns of the requests that were answered without an error status.\<close>

fun succeeded_names :: "event list \<Rightarrow> string list" where
  "succeeded_names [] = []"
| "succeeded_names (Http rq (Resp r) # es) =
     (if is_http_error r then succeeded_names es
      else (case campaign_name_of rq of
              Some n \<Rightarrow> n # succeeded_names es
            | None \<Rightarrow> succeeded_names es))"
| "succeeded_names (e # es) = succeeded_names es"

text \<open>
  An event of the batch loop: the request built for some non-empty sequence at position
  \<open>k\<close> of the list, for the campaign at the same position of the campaign list.
\<close>

definition batch_event ::
  "cell list \<Rightarrow> pyval \<Rightarrow> (string \<times> pyval) list \<Rightarrow> nat \<Rightarrow> pyval list list \<Rightarrow> event \<Rightarrow> bool" where
  "batch_event campaigns cid sr index fs e \<longleftrightarrow>
     (\<exists>k res. k < length fs \<and> fs ! k \<noteq> [] \<and> index + k < length campaigns
        \<and> e = Http (Post_json codes_url
              (codes_data cid (str_cell (campaigns ! (index + k))) (fs ! k) sr)) res)"

text \<open>
  What saving one entry adds to the trace when it succeeds: the download of its
  \<^verbatim>\<open>qr_code\<close>, then the write of the downloaded bytes to the file named after its id.
  What one campaign adds: its directory, then its entries in order.
\<close>

definition entry_events :: "(pyval \<Rightarrow> string) \<Rightarrow> string \<Rightarrow> pyval \<Rightarrow> event list \<Rightarrow> bool" where
  "entry_events repr campaign_dir url_object es \<longleftrightarrow>
     (\<exists>i q r. py_getitem url_object ''id'' = Inr i
        \<and> py_getitem url_object ''qr_code'' = Inr q
        \<and> es = [Http (Get q) (Resp r),
                 Write (campaign_dir @ ''/'' @ py_format repr i @ ''.svg'') (content r)])"

definition campaign_events ::
  "(pyval \<Rightarrow> string) \<Rightarrow> string \<Rightarrow> string \<times> pyval list \<Rightarrow> event list \<Rightarrow> bool" where
  "campaign_events repr root_dir cu es \<longleftrightarrow>
     (\<exists>ess. es = Mkdir (root_dir @ ''/'' @ fst cu) # concat ess
        \<and> list_all2 (entry_events repr (root_dir @ ''/'' @ fst cu)) (snd cu) ess)"


text \<open>The file system only grows: what is there stays, and the current directory too.\<close>

definition fs_grows :: "world \<Rightarrow> world \<Rightarrow> bool" where
  "fs_grows w w' \<longleftrightarrow>
     dirs w \<subseteq> dirs w' \<and> dom (files w) \<subseteq> dom (files w') \<and> cwd w' = cwd w"

section \<open>A concrete world\<close>

text \<open>
  Concrete instances on which the theorems below are exercised: a formatter for ids that
  are strings or numbers, a remote service that answers every batch request with one
  entry per submitted URL and every download with an image, a service that answers
  every request with one fixed status, and a world holding the scenario table.
\<close>

definition plain_repr :: "pyval \<Rightarrow> string" where
  "plain_repr v = ''[]''"

fun echo_entry :: "pyval \<Rightarrow> pyval" where
  "echo_entry (PDict kvs) =
     (case map_of kvs ''id'' of
        Some i \<Rightarrow> PDict [(''id'', i),
                        (''images'', PList [PDict [(''url'', PStr (''img:'' @ py_format plain_repr i))]])]
      | None \<Rightarrow> PNone)"
| "echo_entry v = PNone"

fun service :: server where
  "service history (Post_json u (PDict kvs)) =
     Resp \<lparr>status_code = 200,
           json_body = (case map_of kvs ''urls'' of
                          Some (PList us) \<Rightarrow> Some (PList (map echo_entry us))
                        | _ \<Rightarrow> None),
           content = []\<rparr>"
| "service history (Get q) =
     Resp \<lparr>status_code = 200, json_body = None,
           content = ''<svg>'' @ py_format plain_repr q @ ''</svg>''\<rparr>"
| "service history rq = Resp \<lparr>status_code = 200, json_body = None, content = []\<rparr>"

definition status_reply :: "nat \<Rightarrow> response" where
  "status_reply n = \<lparr>status_code = n, json_body = None, content = []\<rparr>"

definition status_server :: "nat \<Rightarrow> server" where
  "status_server n history rq = Resp (status_reply n)"

definition world0 :: world where
  "world0 = \<lparr>trace = [], heap = [DataFrame scenario], dirs = {[''out'']},
              files = Map.empty, cwd = ''/out''\<rparr>"

text \<open>
  A service that cannot be reached, and a world in which an earlier run has left the
  root folder and the folder of campaign B.
\<close>

definition offline :: server where
  "offline history rq = NetErr ''offline''"

definition world_rerun :: world where
  "world_rerun = \<lparr>trace = [], heap = [DataFrame scenario],
     dirs = {[''out''], [''out'', ''flowcode_images''], [''out'', ''flowcode_images'', ''B'']},
     files = Map.empty, cwd = ''/out''\<rparr>"

section \<open>Properties of the URL Request Builder\<close>

lemma campaign_data_eq:
  "cc \<in> set (columns df) \<Longrightarrow>
   campaign_data df cc cs =
     Inr (map (\<lambda>v. df\<lparr>rows := filter (\<lambda>r. py_eq (cell_at r cc) v) (rows df)\<rparr>) cs)"
  by (induction cs) (simp_all add: loc_eq_def)

lemma rows_loop_true:
  "idc \<in> set cols \<Longrightarrow>
   rows_loop idc redirect True cols ids rs =
     Inr (map (\<lambda>r. url_record (str_cell (cell_at r idc))
                  (redirect @ ''/id='' @ str_cell (cell_at r idc))) rs,
          if rs = [] then ids else Some idc)"
  by (induction rs arbitrary: ids) (simp_all add: row_step_def series_get_def)

lemma upcast_NaN: "upcast d CNaN = CNaN"
  by (cases d) simp_all

lemma cell_at_upcast: "cell_at (map_option (upcast d) \<circ> r) c = upcast d (cell_at r c)"
  by (simp add: cell_at_def upcast_NaN split: option.splits)

lemma frames_loop_true:
  "\<forall>f \<in> set fs. idc \<in> set (columns f) \<Longrightarrow>
   frames_loop idc redirect True ids fs =
     Inr (map (\<lambda>f. map (\<lambda>r. url_record (str_cell (upcast (row_dtype f) (cell_at r idc)))
                  (redirect @ ''/id='' @ str_cell (upcast (row_dtype f) (cell_at r idc))))
                (rows f)) fs)"
  by (induction fs arbitrary: ids)
     (simp_all add: rows_loop_true iterrows_def comp_def cell_at_upcast [unfolded comp_def])

lemma unique_from_snoc:
  "unique_from seen (xs @ [x]) =
     (if py_key x \<in> py_key ` (set seen \<union> set xs) then unique_from seen xs
      else unique_from seen xs @ [x])"
  by (induction xs arbitrary: seen) auto

lemma keys_unique_from:
  "py_key ` set (unique_from seen xs) = py_key ` set xs - py_key ` set seen"
  by (induction xs arbitrary: seen) auto

lemma distinct_unique_from: "distinct (map py_key (unique_from seen xs))"
  by (induction xs arbitrary: seen) (auto simp: keys_unique_from)

lemma keys_unique: "py_key ` set (unique xs) = py_key ` set xs"
  by (simp add: unique_def keys_unique_from)

lemma distinct_unique: "distinct (map py_key (unique xs))"
  by (simp add: unique_def distinct_unique_from)

lemma row_dtype_rows [simp]: "row_dtype (df\<lparr>rows := rs\<rparr>) = row_dtype df"
  by (simp add: row_dtype_def)

text \<open>
  C1. With \<^verbatim>\<open>pass_id_as_argument\<close> false the builder does not produce the bare redirect
  target: on the scenario table (two rows, campaign A) it stops at the first row with
  an unbound local, because \<^verbatim>\<open>id_string\<close> is assigned on the other branch only.
\<close>

theorem C1_flag_false_unbound_local:
  "preprocess_urls (unique [CStr ''A'', CStr ''A'']) ''oid'' ''camp'' ''http://example.com''
       scenario False
     = Inl (UnboundLocalError ''id_string'')"
  by (simp add: preprocess_urls_def scenario_def loc_eq_def cell_at_def py_eq_def row_step_def
      unique_def iterrows_def)

text \<open>
  C4, as stated, fails: the id that is appended is the one read from the row that
  \<^verbatim>\<open>iterrows()\<close> yields, not the one the table holds. In a table whose id column is
  integer and whose campaign column is float, the row is a float64 Series: the object
  id 1, whose string is \<^verbatim>\<open>1\<close>, is sent as id \<^verbatim>\<open>1.0\<close> with the url ending in
  \<^verbatim>\<open>/id=1.0\<close>.
\<close>

theorem C4_integer_id_as_float:
  "getitem upcast_table ''oid'' = Inr [CInt 1, CInt 3]
   \<and> getitem upcast_table ''camp'' = Inr [CFloat 5, CNaN]
   \<and> str_cell (CInt 1) = ''1''
   \<and> preprocess_urls (unique [CFloat 5, CNaN]) ''oid'' ''camp'' ''http://example.com''
        upcast_table True =
       Inr [[PDict [(''id'', PStr ''1.0''), (''url_type'', PStr ''URL''),
                    (''url'', PStr ''http://example.com/id=1.0'')]],
            []]"
proof -
  have a: "str_cell (CInt 1) = ''1''" by code_simp
  have b: "str_cell (CFloat (float_of_int 1)) = ''1.0''" by code_simp
  show ?thesis
    by (simp add: a b preprocess_urls_def upcast_table_def loc_eq_def cell_at_def py_eq_def
        row_step_def unique_def iterrows_def getitem_def row_dtype_def series_get_def
        url_record_def del: str_cell.simps)
qed

text \<open>
  C4, amended. With the flag true and both columns present, \<^verbatim>\<open>_preprocess_urls\<close>
  returns one sequence per campaign, in the order of the campaign list; each sequence
  holds, in row order, one record per row of that campaign, whose id is the string of the
  object id as the row Series holds it, and whose url is the redirect target followed by
  \<^verbatim>\<open>/id=\<close> and that string. The row Series holds the table's object id, except that
  an integer id has become a float when the rows are float64; so for every table whose
  rows are not float64 the string is that of the table's object id. The campaign list
  built by \<^verbatim>\<open>unique\<close> is in first-seen order: a value is appended when no value equal
  to it was met before.
\<close>

theorem C4_urls_with_id:
  assumes "id_column_name \<in> set (columns dataset)"
    and "campaign_column_name \<in> set (columns dataset)"
  shows "preprocess_urls campaigns id_column_name campaign_column_name redirect_url dataset True =
      Inr (map (\<lambda>campaign.
             map (\<lambda>r. url_record
                        (str_cell (upcast (row_dtype dataset) (cell_at r id_column_name)))
                        (redirect_url @ ''/id=''
                          @ str_cell (upcast (row_dtype dataset) (cell_at r id_column_name))))
               (filter (\<lambda>r. py_eq (cell_at r campaign_column_name) campaign) (rows dataset)))
           campaigns)
    \<and> (row_dtype dataset \<noteq> Float64 \<longrightarrow>
        preprocess_urls campaigns id_column_name campaign_column_name redirect_url dataset True =
          Inr (map (\<lambda>campaign.
                 map (\<lambda>r. url_record (str_cell (cell_at r id_column_name))
                            (redirect_url @ ''/id='' @ str_cell (cell_at r id_column_name)))
                   (filter (\<lambda>r. py_eq (cell_at r campaign_column_name) campaign) (rows dataset)))
               campaigns))
    \<and> unique (xs @ [x]) =
        (if py_key x \<in> py_key ` set xs then unique xs else unique xs @ [x])"
proof -
  let ?parts = "map (\<lambda>v. dataset\<lparr>rows :=
      filter (\<lambda>r. py_eq (cell_at r campaign_column_name) v) (rows dataset)\<rparr>) campaigns"
  have cd: "campaign_data dataset campaign_column_name campaigns = Inr ?parts"
    using assms(2) by (rule campaign_data_eq)
  have "\<forall>f \<in> set ?parts. id_column_name \<in> set (columns f)"
    using assms(1) by auto
  then have "frames_loop id_column_name redirect_url True None ?parts =
     Inr (map (\<lambda>f. map (\<lambda>r. url_record
            (str_cell (upcast (row_dtype f) (cell_at r id_column_name)))
            (redirect_url @ ''/id='' @ str_cell (upcast (row_dtype f) (cell_at r id_column_name))))
          (rows f)) ?parts)"
    by (rule frames_loop_true)
  then have main: "preprocess_urls campaigns id_column_name campaign_column_name redirect_url
       dataset True =
      Inr (map (\<lambda>campaign.
             map (\<lambda>r. url_record
                        (str_cell (upcast (row_dtype dataset) (cell_at r id_column_name)))
                        (redirect_url @ ''/id=''
                          @ str_cell (upcast (row_dtype dataset) (cell_at r id_column_name))))
               (filter (\<lambda>r. py_eq (cell_at r campaign_column_name) campaign) (rows dataset)))
           campaigns)"
    by (simp add: preprocess_urls_def cd comp_def)
  have same: "upcast d v = v" if "d \<noteq> Float64" for d v
    using that by (cases d) simp_all
  have plain: "row_dtype dataset \<noteq> Float64 \<longrightarrow>
        preprocess_urls campaigns id_column_name campaign_column_name redirect_url dataset True =
          Inr (map (\<lambda>campaign.
                 map (\<lambda>r. url_record (str_cell (cell_at r id_column_name))
                            (redirect_url @ ''/id='' @ str_cell (cell_at r id_column_name)))
                   (filter (\<lambda>r. py_eq (cell_at r campaign_column_name) campaign) (rows dataset)))
               campaigns)"
    using main by (simp add: same)
  have u: "unique (xs @ [x]) =
        (if py_key x \<in> py_key ` set xs then unique xs else unique xs @ [x])"
    by (simp add: unique_def unique_from_snoc)
  from main plain u show ?thesis by blast
qed


theorem C4_scenario_witness:
  "''oid'' \<in> set (columns scenario) \<and> ''camp'' \<in> set (columns scenario)
   \<and> getitem scenario ''camp'' = Inr [CStr ''A'', CStr ''A'']
   \<and> unique [CStr ''A'', CStr ''A''] = [CStr ''A'']
   \<and> preprocess_urls (unique [CStr ''A'', CStr ''A'']) ''oid'' ''camp'' ''http://example.com''
        scenario True =
       Inr [[PDict [(''id'', PStr ''x1''), (''url_type'', PStr ''URL''),
                    (''url'', PStr ''http://example.com/id=x1'')],
             PDict [(''id'', PStr ''x2''), (''url_type'', PStr ''URL''),
                    (''url'', PStr ''http://example.com/id=x2'')]]]
   \<and> ''ad_id'' \<in> set (columns ads_table) \<and> ''xyz_campaign_id'' \<in> set (columns ads_table)
   \<and> row_dtype ads_table = Int64
   \<and> getitem ads_table ''xyz_campaign_id'' = Inr [CInt 916, CInt 1178, CInt 916]
   \<and> unique [CInt 916, CInt 1178, CInt 916] = [CInt 916, CInt 1178]
   \<and> preprocess_urls (unique [CInt 916, CInt 1178, CInt 916]) ''ad_id'' ''xyz_campaign_id''
        ''http://www.flowcode.com'' ads_table True =
       Inr [[PDict [(''id'', PStr ''708746''), (''url_type'', PStr ''URL''),
                    (''url'', PStr ''http://www.flowcode.com/id=708746'')],
             PDict [(''id'', PStr ''708749''), (''url_type'', PStr ''URL''),
                    (''url'', PStr ''http://www.flowcode.com/id=708749'')]],
            [PDict [(''id'', PStr ''1121100''), (''url_type'', PStr ''URL''),
                    (''url'', PStr ''http://www.flowcode.com/id=1121100'')]]]"
proof -
  have s1: "str_cell (CInt 708746) = ''708746''" by code_simp
  have s2: "str_cell (CInt 708749) = ''708749''" by code_simp
  have s3: "str_cell (CInt 1121100) = ''1121100''" by code_simp
  have d: "row_dtype ads_table = Int64"
    by (simp add: row_dtype_def ads_table_def)
  have sc: "preprocess_urls (unique [CStr ''A'', CStr ''A'']) ''oid'' ''camp''
        ''http://example.com'' scenario True =
       Inr [[PDict [(''id'', PStr ''x1''), (''url_type'', PStr ''URL''),
                    (''url'', PStr ''http://example.com/id=x1'')],
             PDict [(''id'', PStr ''x2''), (''url_type'', PStr ''URL''),
                    (''url'', PStr ''http://example.com/id=x2'')]]]"
    using C4_urls_with_id [of "''oid''" scenario "''camp''" "unique [CStr ''A'', CStr ''A'']"
      "''http://example.com''"]
    by (simp add: scenario_def unique_def cell_at_def py_eq_def url_record_def row_dtype_def)
  have ad: "preprocess_urls (unique [CInt 916, CInt 1178, CInt 916]) ''ad_id'' ''xyz_campaign_id''
        ''http://www.flowcode.com'' ads_table True =
       Inr [[PDict [(''id'', PStr ''708746''), (''url_type'', PStr ''URL''),
                    (''url'', PStr ''http://www.flowcode.com/id=708746'')],
             PDict [(''id'', PStr ''708749''), (''url_type'', PStr ''URL''),
                    (''url'', PStr ''http://www.flowcode.com/id=708749'')]],
            [PDict [(''id'', PStr ''1121100''), (''url_type'', PStr ''URL''),
                    (''url'', PStr ''http://www.flowcode.com/id=1121100'')]]]"
    using C4_urls_with_id [of "''ad_id''" ads_table "''xyz_campaign_id''"
      "unique [CInt 916, CInt 1178, CInt 916]" "''http://www.flowcode.com''"] d
    by (simp add: s1 s2 s3 ads_table_def unique_def cell_at_def py_eq_def url_record_def
        del: str_cell.simps)
  have rest: "''oid'' \<in> set (columns scenario) \<and> ''camp'' \<in> set (columns scenario)
     \<and> getitem scenario ''camp'' = Inr [CStr ''A'', CStr ''A'']
     \<and> unique [CStr ''A'', CStr ''A''] = [CStr ''A'']
     \<and> ''ad_id'' \<in> set (columns ads_table) \<and> ''xyz_campaign_id'' \<in> set (columns ads_table)
     \<and> getitem ads_table ''xyz_campaign_id'' = Inr [CInt 916, CInt 1178, CInt 916]
     \<and> unique [CInt 916, CInt 1178, CInt 916] = [CInt 916, CInt 1178]"
    by (simp add: scenario_def ads_table_def getitem_def unique_def cell_at_def)
  from sc ad d rest show ?thesis by blast
qed

lemma py_eq_key: "py_eq a b \<longleftrightarrow> py_key a = py_key b \<and> a \<noteq> CNaN"
  by (cases a; cases b) (auto simp: py_eq_def)

lemma py_key_NaN: "py_key a = CNaN \<longleftrightarrow> a = CNaN"
  by (cases a) simp_all

lemma mset_concat_filter_distinct:
  "distinct vs \<Longrightarrow>
   mset (concat (map (\<lambda>v. filter (\<lambda>r. f r = v \<and> Q r) xs) vs)) =
     mset (filter (\<lambda>r. f r \<in> set vs \<and> Q r) xs)"
proof (induction vs)
  case Nil
  then show ?case by simp
next
  case (Cons v vs)
  have "mset (filter (\<lambda>r. f r = v \<and> Q r) xs) + mset (filter (\<lambda>r. f r \<in> set vs \<and> Q r) xs)
      = mset (filter (\<lambda>r. (f r = v \<or> f r \<in> set vs) \<and> Q r) xs)"
    using Cons.prems by (induction xs) auto
  with Cons show ?case by simp
qed

text \<open>
  C5, as stated, fails: a row whose campaign value is missing lies in no partition. The
  table with one such row gets one partition, for the value NaN, and it is empty.
\<close>

theorem C5_nan_row_in_no_partition:
  "getitem nan_table ''camp'' = Inr [CNaN]
   \<and> campaign_data nan_table ''camp'' (unique [CNaN]) = Inr [nan_table\<lparr>rows := []\<rparr>]
   \<and> rows nan_table \<noteq> []"
  by (simp add: nan_table_def getitem_def unique_def cell_at_def loc_eq_def py_eq_def)

text \<open>
  C5, amended. For every table holding the campaign column, \<^verbatim>\<open>_preprocess_urls\<close>
  builds one partition per distinct campaign value, in first-seen order; partition \<open>i\<close>
  holds, in table order, exactly the rows whose campaign value equals the \<open>i\<close>-th
  distinct value (and so is not missing). The partitions are pairwise disjoint, and their
  union is the set of rows whose campaign value is not missing, each row as often as
  the table holds it.
\<close>

theorem C5_partitions:
  assumes "getitem dataset campaign_column_name = Inr col"
  shows "\<exists>parts. campaign_data dataset campaign_column_name (unique col) = Inr parts
     \<and> length parts = length (unique col)
     \<and> (\<forall>i < length parts. rows (parts ! i) =
           filter (\<lambda>r. py_eq (cell_at r campaign_column_name) (unique col ! i)) (rows dataset))
     \<and> (\<forall>i < length parts. \<forall>j < length parts. i \<noteq> j \<longrightarrow>
           set (rows (parts ! i)) \<inter> set (rows (parts ! j)) = {})
     \<and> (\<Union>p \<in> set parts. set (rows p)) =
           {r \<in> set (rows dataset). cell_at r campaign_column_name \<noteq> CNaN}
     \<and> mset (concat (map rows parts)) =
           mset (filter (\<lambda>r. cell_at r campaign_column_name \<noteq> CNaN) (rows dataset))"
proof -
  let ?cc = campaign_column_name
  let ?u = "unique col"
  let ?k = "\<lambda>r. py_key (cell_at r ?cc)"
  let ?part = "\<lambda>v. dataset\<lparr>rows := filter (\<lambda>r. py_eq (cell_at r ?cc) v) (rows dataset)\<rparr>"
  let ?parts = "map ?part ?u"
  from assms have incol: "?cc \<in> set (columns dataset)"
    and col: "col = map (\<lambda>r. cell_at r ?cc) (rows dataset)"
    by (auto simp: getitem_def split: if_splits)
  have cd: "campaign_data dataset ?cc ?u = Inr ?parts"
    using incol by (rule campaign_data_eq)
  have len: "length ?parts = length ?u" by simp
  have rows_i: "rows (?parts ! i) =
      filter (\<lambda>r. py_eq (cell_at r ?cc) (?u ! i)) (rows dataset)"
    if "i < length ?parts" for i
    using that by simp
  have disj: "set (rows (?parts ! i)) \<inter> set (rows (?parts ! j)) = {}"
    if "i < length ?parts" "j < length ?parts" "i \<noteq> j" for i j
  proof -
    have "py_key (?u ! i) \<noteq> py_key (?u ! j)"
      using that distinct_unique [of col] by (auto simp: distinct_conv_nth)
    then show ?thesis
      using that by (auto simp: py_eq_key)
  qed
  have mem: "?k r \<in> py_key ` set ?u" if "r \<in> set (rows dataset)" for r
    using that by (auto simp: keys_unique col)
  have un: "(\<Union>p \<in> set ?parts. set (rows p)) = {r \<in> set (rows dataset). cell_at r ?cc \<noteq> CNaN}"
  proof (intro set_eqI iffI)
    fix r assume "r \<in> (\<Union>p \<in> set ?parts. set (rows p))"
    then show "r \<in> {r \<in> set (rows dataset). cell_at r ?cc \<noteq> CNaN}"
      by (auto simp: py_eq_key)
  next
    fix r assume r: "r \<in> {r \<in> set (rows dataset). cell_at r ?cc \<noteq> CNaN}"
    with mem obtain v where v: "v \<in> set ?u" "?k r = py_key v" by auto
    with r have "py_eq (cell_at r ?cc) v" by (simp add: py_eq_key)
    with r v(1) show "r \<in> (\<Union>p \<in> set ?parts. set (rows p))" by auto
  qed
  have eq: "map rows ?parts =
      map (\<lambda>v. filter (\<lambda>r. ?k r = v \<and> cell_at r ?cc \<noteq> CNaN) (rows dataset)) (map py_key ?u)"
    by (simp add: py_eq_key comp_def)
  have "mset (concat (map rows ?parts)) =
      mset (concat (map (\<lambda>v. filter (\<lambda>r. ?k r = v \<and> cell_at r ?cc \<noteq> CNaN) (rows dataset))
        (map py_key ?u)))"
    by (simp only: eq)
  also have "\<dots> =
      mset (filter (\<lambda>r. ?k r \<in> set (map py_key ?u) \<and> cell_at r ?cc \<noteq> CNaN) (rows dataset))"
    by (rule mset_concat_filter_distinct [OF distinct_unique])
  also have "filter (\<lambda>r. ?k r \<in> set (map py_key ?u) \<and> cell_at r ?cc \<noteq> CNaN) (rows dataset) =
      filter (\<lambda>r. cell_at r ?cc \<noteq> CNaN) (rows dataset)"
    using mem by (auto intro: filter_cong)
  finally have ms: "mset (concat (map rows ?parts)) =
      mset (filter (\<lambda>r. cell_at r ?cc \<noteq> CNaN) (rows dataset))" .
  from cd len rows_i disj un ms show ?thesis
    by blast
qed

theorem C5_partitions_witness:
  "getitem scenario ''camp'' = Inr [CStr ''A'', CStr ''A'']
   \<and> (\<exists>parts. campaign_data scenario ''camp'' (unique [CStr ''A'', CStr ''A'']) = Inr parts
     \<and> length parts = length (unique [CStr ''A'', CStr ''A''])
     \<and> (\<forall>i < length parts. rows (parts ! i) =
           filter (\<lambda>r. py_eq (cell_at r ''camp'') (unique [CStr ''A'', CStr ''A''] ! i))
             (rows scenario))
     \<and> (\<forall>i < length parts. \<forall>j < length parts. i \<noteq> j \<longrightarrow>
           set (rows (parts ! i)) \<inter> set (rows (parts ! j)) = {})
     \<and> (\<Union>p \<in> set parts. set (rows p)) =
           {r \<in> set (rows scenario). cell_at r ''camp'' \<noteq> CNaN}
     \<and> mset (concat (map rows parts)) =
           mset (filter (\<lambda>r. cell_at r ''camp'' \<noteq> CNaN) (rows scenario)))"
proof -
  have h: "getitem scenario ''camp'' = Inr [CStr ''A'', CStr ''A'']"
    by (simp add: getitem_def scenario_def cell_at_def)
  show ?thesis
    by (rule conjI [OF h C5_partitions [OF h]])
qed

section \<open>Properties of the Input Validator\<close>

lemma take_class_mono:
  "(\<And>c. P c \<Longrightarrow> Q c) \<Longrightarrow> take_class P n s = Some r \<Longrightarrow> take_class Q n s = Some r"
  by (induction P n s rule: take_class.induct) (auto split: if_splits)

lemma match_groups_mono:
  "(\<And>c. P c \<Longrightarrow> Q c) \<Longrightarrow> match_groups P ns s \<Longrightarrow> match_groups Q ns s"
proof (induction P ns s rule: match_groups.induct)
  case (1 P s)
  then show ?case by simp
next
  case (2 P n s)
  from "2.prems"(2) have "take_class P n s = Some []" by simp
  with "2.prems"(1) have "take_class Q n s = Some []" by (rule take_class_mono)
  then show ?case by simp
next
  case (3 P n v va s)
  from "3.prems"(2) obtain c rest where tc: "take_class P n s = Some (c # rest)"
    and c: "c = CHR ''-''" and m: "match_groups P (v # va) rest"
    by (auto split: option.splits list.splits)
  have "take_class Q n s = Some (c # rest)"
    using "3.prems"(1) tc by (rule take_class_mono)
  moreover have "match_groups Q (v # va) rest"
    using "3.IH" [OF tc refl "3.prems"(1) m] .
  ultimately show ?case using c by simp
qed

lemma lower_hex_alnum: "lower_hex c \<Longrightarrow> lower_alnum c"
  by (auto simp: lower_hex_def lower_alnum_def)

lemma canonical_uuid_fullmatch: "canonical_uuid s \<Longrightarrow> regex_fullmatch s"
  unfolding canonical_uuid_def regex_fullmatch_def
  by (rule match_groups_mono [OF lower_hex_alnum])

lemma error_checking_bad_id:
  assumes "\<forall>s. client_id = PStr s \<longrightarrow> \<not> regex_fullmatch s"
  shows "\<exists>msg. error_checking client_id d idc cc = Inl (Exception msg)"
  using assms by (cases client_id) (simp_all add: error_checking_def)

lemma scenario_columns:
  "''oid'' \<in> set (columns scenario) \<and> ''camp'' \<in> set (columns scenario)"
  by (simp add: scenario_def)

lemma error_checking_ok:
  "regex_fullmatch s \<Longrightarrow> id_column_name \<in> set (columns df) \<Longrightarrow>
   campaign_column_name \<in> set (columns df) \<Longrightarrow>
   error_checking (PStr s) (DataFrame df) id_column_name campaign_column_name = Inr ()"
  by (simp add: error_checking_def)

lemma generate_flowcodes_invalid:
  "error_checking client_id (deref w dataset) id_column_name campaign_column_name = Inl e \<Longrightarrow>
   generate_flowcodes srv repr client_id id_column_name campaign_column_name
       redirect_url dataset smart_rules parent_dir pass_id_as_argument w = (Inl e, w)"
  unfolding generate_flowcodes_def by (simp only: sum.case)

text \<open>
  C2, as stated, fails: the pattern of the source takes any lowercase letter, not only
  the hexadecimal digits. An identifier of the letter g in the 8-4-4-4-12 shape is no
  canonical UUID, and validation accepts it.
\<close>

theorem C2_non_hex_id_accepted:
  "\<not> canonical_uuid ''gggggggg-gggg-gggg-gggg-gggggggggggg''
   \<and> error_checking (PStr ''gggggggg-gggg-gggg-gggg-gggggggggggg'') (DataFrame scenario)
        ''oid'' ''camp'' = Inr ()"
proof
  show "\<not> canonical_uuid ''gggggggg-gggg-gggg-gggg-gggggggggggg''"
    by code_simp
next
  have "regex_fullmatch ''gggggggg-gggg-gggg-gggg-gggggggggggg''"
    by code_simp
  then show "error_checking (PStr ''gggggggg-gggg-gggg-gggg-gggggggggggg'') (DataFrame scenario)
        ''oid'' ''camp'' = Inr ()"
    using scenario_columns by (simp add: error_checking_ok)
qed

text \<open>
  C2, amended. A client identifier that is not a string matching 8-4-4-4-12 groups of
  characters from a-z and 0-9 makes \<^verbatim>\<open>generate_flowcodes\<close> raise the validation
  exception with the world untouched: nothing was sent, nothing written. An identifier
  matching that pattern, with a table holding both columns, passes validation; every
  canonical lowercase-hexadecimal UUID matches the pattern.
\<close>

theorem C2_validation:
  "((\<forall>s. client_id = PStr s \<longrightarrow> \<not> regex_fullmatch s) \<longrightarrow>
      (\<exists>msg. generate_flowcodes srv repr client_id id_column_name campaign_column_name
          redirect_url dataset smart_rules parent_dir pass_id_as_argument w
        = (Inl (Exception msg), w)))
   \<and> (regex_fullmatch s \<and> id_column_name \<in> set (columns df)
        \<and> campaign_column_name \<in> set (columns df) \<longrightarrow>
      error_checking (PStr s) (DataFrame df) id_column_name campaign_column_name = Inr ())
   \<and> (canonical_uuid s \<longrightarrow> regex_fullmatch s)"
proof (intro conjI impI)
  assume bad: "\<forall>s. client_id = PStr s \<longrightarrow> \<not> regex_fullmatch s"
  from error_checking_bad_id [OF bad]
  obtain msg where "error_checking client_id (deref w dataset) id_column_name
      campaign_column_name = Inl (Exception msg)"
    by blast
  then show "\<exists>msg. generate_flowcodes srv repr client_id id_column_name campaign_column_name
          redirect_url dataset smart_rules parent_dir pass_id_as_argument w
        = (Inl (Exception msg), w)"
    by (simp only: generate_flowcodes_invalid) blast
next
  assume "regex_fullmatch s \<and> id_column_name \<in> set (columns df)
        \<and> campaign_column_name \<in> set (columns df)"
  then show "error_checking (PStr s) (DataFrame df) id_column_name campaign_column_name = Inr ()"
    by (simp add: error_checking_def)
next
  assume "canonical_uuid s"
  then show "regex_fullmatch s" by (rule canonical_uuid_fullmatch)
qed

theorem C2_validation_witness:
  "(\<forall>s. PInt 5 \<noteq> PStr s)
   \<and> (\<exists>msg. generate_flowcodes service plain_repr (PInt 5) ''oid'' ''camp'' ''http://example.com'' 0 []
          [] True world0 = (Inl (Exception msg), world0))
   \<and> canonical_uuid ''d929d46a-7eba-11ec-90d6-0242ac120003''
   \<and> regex_fullmatch ''d929d46a-7eba-11ec-90d6-0242ac120003''
   \<and> ''oid'' \<in> set (columns scenario) \<and> ''camp'' \<in> set (columns scenario)
   \<and> error_checking (PStr ''d929d46a-7eba-11ec-90d6-0242ac120003'') (DataFrame scenario)
        ''oid'' ''camp'' = Inr ()"
proof -
  have u: "canonical_uuid ''d929d46a-7eba-11ec-90d6-0242ac120003''"
    by code_simp
  have n: "\<forall>s. PInt 5 \<noteq> PStr s"
    by simp
  note t = C2_validation [of "PInt 5" service plain_repr "''oid''" "''camp''" "''http://example.com''" 0
      "[]" "[]" True world0 "''d929d46a-7eba-11ec-90d6-0242ac120003''" scenario]
  from t n have g: "\<exists>msg. generate_flowcodes service plain_repr (PInt 5) ''oid'' ''camp''
      ''http://example.com'' 0 [] [] True world0 = (Inl (Exception msg), world0)"
    by blast
  from t u have r: "regex_fullmatch ''d929d46a-7eba-11ec-90d6-0242ac120003''"
    by blast
  from t r scenario_columns
  have e: "error_checking (PStr ''d929d46a-7eba-11ec-90d6-0242ac120003'') (DataFrame scenario)
        ''oid'' ''camp'' = Inr ()"
    by blast
  from n g u r scenario_columns e show ?thesis
    by blast
qed

section \<open>Properties of the Campaign Provisioner\<close>

lemma http_requests_append: "http_requests (xs @ ys) = http_requests xs @ http_requests ys"
  by (induction xs rule: http_requests.induct) simp_all

lemma campaigns_loop_append:
  "campaigns_loop srv cid ru (pre @ post) w =
     (case campaigns_loop srv cid ru pre w of
        (Inl e, w') \<Rightarrow> (Inl e, w')
      | (Inr u, w') \<Rightarrow> campaigns_loop srv cid ru post w')"
  by (induction pre arbitrary: w)
     (simp_all add: send_def split: http_result.splits)

lemma campaigns_loop_all_handled:
  assumes ok: "\<forall>h rq. \<exists>r. srv h rq = Resp r \<and> (is_http_error r \<longrightarrow> status_code r = 409)"
  shows "\<exists>w'. campaigns_loop srv cid ru cs w = (Inr (), w')
     \<and> http_requests (trace w') = http_requests (trace w) @ map (campaign_request cid ru) cs"
proof (induction cs arbitrary: w)
  case Nil
  then show ?case by simp
next
  case (Cons c cs)
  let ?rq = "campaign_request cid ru c"
  from ok obtain r where r: "srv (trace w) ?rq = Resp r"
    and h: "is_http_error r \<longrightarrow> status_code r = 409"
    by blast
  let ?w = "w\<lparr>trace := trace w @ [Http ?rq (Resp r)]\<rparr>"
  have step: "campaigns_loop srv cid ru (c # cs) w = campaigns_loop srv cid ru cs ?w"
    using r h by (simp add: send_def)
  from Cons.IH [of ?w] obtain w' where
    "campaigns_loop srv cid ru cs ?w = (Inr (), w')"
    "http_requests (trace w') = http_requests (trace ?w) @ map (campaign_request cid ru) cs"
    by blast
  then show ?case
    unfolding step by (simp add: http_requests_append)
qed

text \<open>
  C3. Let the requests for the campaigns before \<open>c\<close> be handled and the service answer
  the request for \<open>c\<close> with a response \<open>r\<close>. If its status is 409,
  \<^verbatim>\<open>_generate_campaigns\<close> does not raise there and goes on with all the campaigns
  after \<open>c\<close>. If it is any other error status, the call raises the HTTP error that
  carries \<open>r\<close>, and the request for \<open>c\<close> is the last one sent. When the service
  answers every request with 409 or with no error status, the call returns the campaign
  list and has sent exactly one request per campaign, in order.
\<close>

theorem C3_campaign_conflict_and_failure:
  assumes pre: "campaigns_loop srv cid ru pre w = (Inr (), w1)"
    and resp: "srv (trace w1) (campaign_request cid ru c) = Resp r"
    and w2: "w2 = w1\<lparr>trace := trace w1 @ [Http (campaign_request cid ru c) (Resp r)]\<rparr>"
  shows "(status_code r = 409 \<longrightarrow>
           generate_campaigns srv (pre @ c # post) cid ru w =
             (case campaigns_loop srv cid ru post w2 of
                (Inl e, w') \<Rightarrow> (Inl e, w')
              | (Inr u, w') \<Rightarrow> (Inr (pre @ c # post), w')))
     \<and> (is_http_error r \<and> status_code r \<noteq> 409 \<longrightarrow>
           generate_campaigns srv (pre @ c # post) cid ru w = (Inl (HTTPError r), w2))
     \<and> ((\<forall>h rq. \<exists>r'. srv h rq = Resp r' \<and> (is_http_error r' \<longrightarrow> status_code r' = 409)) \<longrightarrow>
           (\<exists>w'. generate_campaigns srv (pre @ c # post) cid ru w = (Inr (pre @ c # post), w')
              \<and> http_requests (trace w') =
                  http_requests (trace w) @ map (campaign_request cid ru) (pre @ c # post)))"
proof (intro conjI impI)
  assume "status_code r = 409"
  then have "campaigns_loop srv cid ru (c # post) w1 = campaigns_loop srv cid ru post w2"
    using resp w2 by (simp add: send_def)
  then show "generate_campaigns srv (pre @ c # post) cid ru w =
             (case campaigns_loop srv cid ru post w2 of
                (Inl e, w') \<Rightarrow> (Inl e, w')
              | (Inr u, w') \<Rightarrow> (Inr (pre @ c # post), w'))"
    by (simp add: generate_campaigns_def campaigns_loop_append pre)
next
  assume "is_http_error r \<and> status_code r \<noteq> 409"
  then have "campaigns_loop srv cid ru (c # post) w1 = (Inl (HTTPError r), w2)"
    using resp w2 by (simp add: send_def)
  then show "generate_campaigns srv (pre @ c # post) cid ru w = (Inl (HTTPError r), w2)"
    by (simp add: generate_campaigns_def campaigns_loop_append pre)
next
  assume "\<forall>h rq. \<exists>r'. srv h rq = Resp r' \<and> (is_http_error r' \<longrightarrow> status_code r' = 409)"
  from campaigns_loop_all_handled [OF this, of cid ru "pre @ c # post" w]
  show "\<exists>w'. generate_campaigns srv (pre @ c # post) cid ru w = (Inr (pre @ c # post), w')
              \<and> http_requests (trace w') =
                  http_requests (trace w) @ map (campaign_request cid ru) (pre @ c # post)"
    by (auto simp: generate_campaigns_def)
qed


theorem C3_witness:
  "generate_campaigns (status_server 409) [CStr ''A'', CStr ''B''] (PStr ''id'') False world0 =
     (Inr [CStr ''A'', CStr ''B''],
      world0\<lparr>trace :=
        [Http (campaign_request (PStr ''id'') False (CStr ''A'')) (Resp (status_reply 409)),
         Http (campaign_request (PStr ''id'') False (CStr ''B'')) (Resp (status_reply 409))]\<rparr>)
   \<and> generate_campaigns (status_server 500) [CStr ''A'', CStr ''B''] (PStr ''id'') False world0 =
     (Inl (HTTPError (status_reply 500)),
      world0\<lparr>trace :=
        [Http (campaign_request (PStr ''id'') False (CStr ''A'')) (Resp (status_reply 500))]\<rparr>)"
  using
    C3_campaign_conflict_and_failure [of "status_server 409" "PStr ''id''" False "[]" world0 world0
      "CStr ''A''" "status_reply 409" _ "[CStr ''B'']"]
    C3_campaign_conflict_and_failure [of "status_server 500" "PStr ''id''" False "[]" world0 world0
      "CStr ''A''" "status_reply 500" _ "[CStr ''B'']"]
  by (simp add: status_server_def status_reply_def is_http_error_def world0_def send_def)

section \<open>Properties of the Code Generator Client\<close>

lemma campaign_name_of_codes_data [simp]:
  "campaign_name_of (Post_json u (codes_data cid name urls sr)) = Some name"
  by (simp add: codes_data_def)

lemma keys_update: "fst ` set (AList.update k v al) = insert k (fst ` set al)"
  by (induction al) auto

text \<open>The loop body of \<^verbatim>\<open>_generate_urls\<close>, case by case.\<close>

lemma urls_loop_empty:
  "urls_loop srv campaigns cid sr index ([] # rest) responses w =
     urls_loop srv campaigns cid sr (Suc index) rest responses w"
  by simp

lemma urls_loop_index_error:
  "val \<noteq> [] \<Longrightarrow> \<not> index < length campaigns \<Longrightarrow>
   urls_loop srv campaigns cid sr index (val # rest) responses w = (Inl IndexError, w)"
  by simp

lemma urls_loop_net_error:
  "val \<noteq> [] \<Longrightarrow> index < length campaigns \<Longrightarrow>
   srv (trace w) (Post_json codes_url (codes_data cid (str_cell (campaigns ! index)) val sr))
     = NetErr x \<Longrightarrow>
   urls_loop srv campaigns cid sr index (val # rest) responses w =
     (Inl (RequestException x),
      w\<lparr>trace := trace w @ [Http (Post_json codes_url
          (codes_data cid (str_cell (campaigns ! index)) val sr)) (NetErr x)]\<rparr>)"
  by (simp add: send_def)

lemma urls_loop_http_error:
  "val \<noteq> [] \<Longrightarrow> index < length campaigns \<Longrightarrow>
   srv (trace w) (Post_json codes_url (codes_data cid (str_cell (campaigns ! index)) val sr))
     = Resp r \<Longrightarrow>
   is_http_error r \<Longrightarrow> status_code r \<noteq> 409 \<Longrightarrow>
   urls_loop srv campaigns cid sr index (val # rest) responses w =
     (Inl (HTTPError r),
      w\<lparr>trace := trace w @ [Http (Post_json codes_url
          (codes_data cid (str_cell (campaigns ! index)) val sr)) (Resp r)]\<rparr>)"
  by (simp add: send_def)

lemma urls_loop_conflict:
  "val \<noteq> [] \<Longrightarrow> index < length campaigns \<Longrightarrow>
   srv (trace w) (Post_json codes_url (codes_data cid (str_cell (campaigns ! index)) val sr))
     = Resp r \<Longrightarrow>
   status_code r = 409 \<Longrightarrow>
   urls_loop srv campaigns cid sr index (val # rest) responses w =
     urls_loop srv campaigns cid sr (Suc index) rest responses
       (w\<lparr>trace := trace w @ [Http (Post_json codes_url
          (codes_data cid (str_cell (campaigns ! index)) val sr)) (Resp r)]\<rparr>)"
  by (simp add: send_def is_http_error_def)

lemma urls_loop_success:
  "val \<noteq> [] \<Longrightarrow> index < length campaigns \<Longrightarrow>
   srv (trace w) (Post_json codes_url (codes_data cid (str_cell (campaigns ! index)) val sr))
     = Resp r \<Longrightarrow>
   \<not> is_http_error r \<Longrightarrow>
   urls_loop srv campaigns cid sr index (val # rest) responses w =
     urls_loop srv campaigns cid sr (Suc index) rest
       (AList.update (str_cell (campaigns ! index)) r responses)
       (w\<lparr>trace := trace w @ [Http (Post_json codes_url
          (codes_data cid (str_cell (campaigns ! index)) val sr)) (Resp r)]\<rparr>)"
  by (simp add: send_def)

lemma urls_loop_nil:
  "urls_loop srv campaigns cid sr index [] responses w = (Inr responses, w)"
  by simp

lemma urls_loop_frame:
  "heap (snd (urls_loop srv campaigns cid sr index fs responses w)) = heap w
   \<and> dirs (snd (urls_loop srv campaigns cid sr index fs responses w)) = dirs w
   \<and> files (snd (urls_loop srv campaigns cid sr index fs responses w)) = files w
   \<and> cwd (snd (urls_loop srv campaigns cid sr index fs responses w)) = cwd w"
  by (induction fs arbitrary: index responses w)
     (simp_all add: send_def split: http_result.splits)


declare urls_loop.simps [simp del]

lemma urls_loop_append:
  "urls_loop srv campaigns cid sr index pre responses w = (Inr rs, w') \<Longrightarrow>
   urls_loop srv campaigns cid sr index (pre @ post) responses w =
     urls_loop srv campaigns cid sr (index + length pre) post rs w'"
proof (induction pre arbitrary: index responses w)
  case Nil
  then show ?case by (simp add: urls_loop_nil)
next
  case (Cons val pre)
  show ?case
  proof (cases "val = []")
    case True
    with Cons.prems
    have "urls_loop srv campaigns cid sr (Suc index) pre responses w = (Inr rs, w')"
      by (simp add: urls_loop_empty)
    from Cons.IH [OF this] True show ?thesis by (simp add: urls_loop_empty)
  next
    case False
    have inb: "index < length campaigns"
    proof (rule ccontr)
      assume "\<not> index < length campaigns"
      from urls_loop_index_error [OF False this] Cons.prems show False by simp
    qed
    let ?rq = "Post_json codes_url (codes_data cid (str_cell (campaigns ! index)) val sr)"
    obtain r where r: "srv (trace w) ?rq = Resp r"
    proof (cases "srv (trace w) ?rq")
      case (Resp r)
      then show ?thesis by (rule that)
    next
      case (NetErr x)
      from urls_loop_net_error [where srv = srv and w = w, OF False inb NetErr] Cons.prems
      show ?thesis by simp
    qed
    let ?w = "w\<lparr>trace := trace w @ [Http ?rq (Resp r)]\<rparr>"
    let ?rs = "if is_http_error r then responses
               else AList.update (str_cell (campaigns ! index)) r responses"
    have nf: "is_http_error r \<Longrightarrow> status_code r = 409"
    proof (rule ccontr)
      assume "is_http_error r" "status_code r \<noteq> 409"
      from urls_loop_http_error [where srv = srv and w = w, OF False inb r this] Cons.prems
      show False by simp
    qed
    have step: "urls_loop srv campaigns cid sr index (val # xs) responses w =
        urls_loop srv campaigns cid sr (Suc index) xs ?rs ?w" for xs
    proof (cases "is_http_error r")
      case True
      with nf urls_loop_conflict [where srv = srv and w = w, OF False inb r]
      show ?thesis by simp
    next
      case False
      with urls_loop_success [where srv = srv and w = w, OF \<open>val \<noteq> []\<close> inb r]
      show ?thesis by simp
    qed
    from Cons.prems have "urls_loop srv campaigns cid sr (Suc index) pre ?rs ?w = (Inr rs, w')"
      by (simp only: step)
    from Cons.IH [OF this] show ?thesis
      by (simp only: append_Cons step) simp
  qed
qed

lemma succeeded_names_append:
  "succeeded_names (xs @ ys) = succeeded_names xs @ succeeded_names ys"
  by (induction xs rule: succeeded_names.induct) (simp_all split: option.splits)

text \<open>
  A non-empty sequence at a valid position: the request is sent, and the loop either
  stops with an error or goes on, with the response stored unless it is an error.
\<close>

lemma urls_loop_cases:
  assumes "val \<noteq> []" and "index < length campaigns"
  obtains x where "srv (trace w) (Post_json codes_url
        (codes_data cid (str_cell (campaigns ! index)) val sr)) = NetErr x"
  | r where "srv (trace w) (Post_json codes_url
        (codes_data cid (str_cell (campaigns ! index)) val sr)) = Resp r"
      "is_http_error r" "status_code r \<noteq> 409"
  | r where "srv (trace w) (Post_json codes_url
        (codes_data cid (str_cell (campaigns ! index)) val sr)) = Resp r"
      "status_code r = 409"
  | r where "srv (trace w) (Post_json codes_url
        (codes_data cid (str_cell (campaigns ! index)) val sr)) = Resp r"
      "\<not> is_http_error r"
  by (cases "srv (trace w) (Post_json codes_url
        (codes_data cid (str_cell (campaigns ! index)) val sr))") blast+

lemma batch_event_here:
  "val \<noteq> [] \<Longrightarrow> index < length campaigns \<Longrightarrow>
   batch_event campaigns cid sr index (val # rest)
     (Http (Post_json codes_url (codes_data cid (str_cell (campaigns ! index)) val sr)) res)"
  unfolding batch_event_def by (intro exI [of _ 0] exI [of _ res]) simp

lemma batch_event_later:
  "batch_event campaigns cid sr (Suc index) rest e \<Longrightarrow>
   batch_event campaigns cid sr index (val # rest) e"
  unfolding batch_event_def
proof (elim exE conjE)
  fix k res
  assume "k < length rest" "rest ! k \<noteq> []" "Suc index + k < length campaigns"
    "e = Http (Post_json codes_url
          (codes_data cid (str_cell (campaigns ! (Suc index + k))) (rest ! k) sr)) res"
  then show "\<exists>k res. k < length (val # rest) \<and> (val # rest) ! k \<noteq> []
      \<and> index + k < length campaigns
      \<and> e = Http (Post_json codes_url
            (codes_data cid (str_cell (campaigns ! (index + k))) ((val # rest) ! k) sr)) res"
    by (intro exI [of _ "Suc k"] exI [of _ res]) simp
qed

lemma urls_loop_events:
  "\<exists>es. trace (snd (urls_loop srv campaigns cid sr index fs responses w)) = trace w @ es
     \<and> (\<forall>e \<in> set es. batch_event campaigns cid sr index fs e)
     \<and> (\<forall>rs. fst (urls_loop srv campaigns cid sr index fs responses w) = Inr rs \<longrightarrow>
           fst ` set rs = fst ` set responses \<union> set (succeeded_names es)
           \<and> (\<forall>e \<in> set es. \<exists>rq r. e = Http rq (Resp r)
                  \<and> (is_http_error r \<longrightarrow> status_code r = 409)))"
  (is "\<exists>es. ?P index fs responses w es")
proof (induction fs arbitrary: index responses w)
  case Nil
  show ?case by (simp add: urls_loop_nil)
next
  case (Cons val rest)
  show ?case
  proof (cases "val = []")
    case True
    from Cons.IH [of "Suc index" responses w] obtain es where
      "?P (Suc index) rest responses w es" by blast
    then have "?P index (val # rest) responses w es"
      using True by (auto simp: urls_loop_empty intro: batch_event_later)
    then show ?thesis by blast
  next
    case False
    show ?thesis
    proof (cases "index < length campaigns")
      case outside: False
      have "?P index (val # rest) responses w []"
        by (simp add: urls_loop_index_error [OF False outside])
      then show ?thesis by blast
    next
      case inb: True
      let ?rq = "Post_json codes_url (codes_data cid (str_cell (campaigns ! index)) val sr)"
      from False inb show ?thesis
      proof (cases rule: urls_loop_cases [where srv = srv and w = w and cid = cid and sr = sr])
        case (1 x)
        have "?P index (val # rest) responses w [Http ?rq (NetErr x)]"
          using False inb
          by (simp add: urls_loop_net_error [where srv = srv and w = w, OF False inb 1]
              batch_event_here)
        then show ?thesis by blast
      next
        case (2 r)
        have "?P index (val # rest) responses w [Http ?rq (Resp r)]"
          using False inb
          by (simp add: urls_loop_http_error [where srv = srv and w = w, OF False inb 2]
              batch_event_here)
        then show ?thesis by blast
      next
        case (3 r)
        let ?w = "w\<lparr>trace := trace w @ [Http ?rq (Resp r)]\<rparr>"
        have err: "is_http_error r"
          using 3(2) by (simp add: is_http_error_def)
        from Cons.IH [of "Suc index" responses ?w] obtain es where
          es: "?P (Suc index) rest responses ?w es" by blast
        have "?P index (val # rest) responses w (Http ?rq (Resp r) # es)"
          using es False inb err 3(2)
          by (auto simp: urls_loop_conflict [where srv = srv and w = w, OF False inb 3]
              batch_event_here intro: batch_event_later)
        then show ?thesis by blast
      next
        case (4 r)
        let ?w = "w\<lparr>trace := trace w @ [Http ?rq (Resp r)]\<rparr>"
        let ?rs = "AList.update (str_cell (campaigns ! index)) r responses"
        from Cons.IH [of "Suc index" ?rs ?w] obtain es where
          es: "?P (Suc index) rest ?rs ?w es" by blast
        have "?P index (val # rest) responses w (Http ?rq (Resp r) # es)"
          using es False inb 4(2)
          by (auto simp: urls_loop_success [where srv = srv and w = w, OF False inb 4]
              batch_event_here keys_update intro: batch_event_later)
        then show ?thesis by blast
      qed
    qed
  qed
qed

lemma succeeded_names_batch:
  "\<forall>e \<in> set es. batch_event campaigns cid sr index fs e \<Longrightarrow>
   set (succeeded_names es) \<subseteq>
     {str_cell (campaigns ! (index + k)) | k.
        k < length fs \<and> fs ! k \<noteq> [] \<and> index + k < length campaigns}"
proof (induction es)
  case Nil
  show ?case by simp
next
  case (Cons e es)
  from Cons.prems obtain k res where k: "k < length fs" "fs ! k \<noteq> []"
      "index + k < length campaigns"
    and e: "e = Http (Post_json codes_url
          (codes_data cid (str_cell (campaigns ! (index + k))) (fs ! k) sr)) res"
    by (auto simp: batch_event_def)
  have "set (succeeded_names (e # es)) \<subseteq>
      insert (str_cell (campaigns ! (index + k))) (set (succeeded_names es))"
    unfolding e by (cases res) auto
  moreover have "set (succeeded_names es) \<subseteq>
     {str_cell (campaigns ! (index + k)) | k.
        k < length fs \<and> fs ! k \<noteq> [] \<and> index + k < length campaigns}"
    using Cons by simp
  ultimately show ?case using k by blast
qed




lemma nonempty_positions:
  "map g (filter (\<lambda>k. (v # fs) ! k \<noteq> []) [0..<Suc (length fs)]) =
     (if v \<noteq> [] then [g 0] else [])
     @ map (\<lambda>k. g (Suc k)) (filter (\<lambda>k. fs ! k \<noteq> []) [0..<length fs])"
proof -
  have "[0..<Suc (length fs)] = 0 # map Suc [0..<length fs]"
    by (simp add: upt_conv_Cons map_Suc_upt del: upt_Suc)
  then show ?thesis
    by (simp add: filter_map comp_def del: upt_Suc)
qed

lemma urls_loop_all_handled:
  assumes ok: "\<forall>h rq. \<exists>r. srv h rq = Resp r \<and> (is_http_error r \<longrightarrow> status_code r = 409)"
  shows "index + length fs \<le> length campaigns \<Longrightarrow>
     \<exists>rs w'. urls_loop srv campaigns cid sr index fs responses w = (Inr rs, w')
       \<and> http_requests (trace w') = http_requests (trace w)
           @ map (\<lambda>k. Post_json codes_url
                    (codes_data cid (str_cell (campaigns ! (index + k))) (fs ! k) sr))
               (filter (\<lambda>k. fs ! k \<noteq> []) [0..<length fs])"
proof (induction fs arbitrary: index responses w)
  case Nil
  show ?case by (simp add: urls_loop_nil)
next
  case (Cons val rest)
  let ?g = "\<lambda>k. Post_json codes_url
      (codes_data cid (str_cell (campaigns ! (index + k))) ((val # rest) ! k) sr)"
  have pos: "map ?g (filter (\<lambda>k. (val # rest) ! k \<noteq> []) [0..<length (val # rest)]) =
     (if val \<noteq> [] then [?g 0] else [])
     @ map (\<lambda>k. ?g (Suc k)) (filter (\<lambda>k. rest ! k \<noteq> []) [0..<length rest])"
    using nonempty_positions [of ?g val rest] by simp
  from Cons.prems have len: "Suc index + length rest \<le> length campaigns" by simp
  show ?case
  proof (cases "val = []")
    case True
    from Cons.IH [OF len, of responses w] obtain rs w' where
      "urls_loop srv campaigns cid sr (Suc index) rest responses w = (Inr rs, w')"
      "http_requests (trace w') = http_requests (trace w)
           @ map (\<lambda>k. Post_json codes_url
                    (codes_data cid (str_cell (campaigns ! (Suc index + k))) (rest ! k) sr))
               (filter (\<lambda>k. rest ! k \<noteq> []) [0..<length rest])"
      by blast
    with True show ?thesis
      unfolding pos by (simp add: urls_loop_empty)
  next
    case False
    from Cons.prems have inb: "index < length campaigns" by simp
    let ?rq = "Post_json codes_url (codes_data cid (str_cell (campaigns ! index)) val sr)"
    from ok obtain r where r: "srv (trace w) ?rq = Resp r"
      and h: "is_http_error r \<longrightarrow> status_code r = 409"
      by blast
    let ?w = "w\<lparr>trace := trace w @ [Http ?rq (Resp r)]\<rparr>"
    let ?rs = "if is_http_error r then responses
               else AList.update (str_cell (campaigns ! index)) r responses"
    have step: "urls_loop srv campaigns cid sr index (val # rest) responses w =
        urls_loop srv campaigns cid sr (Suc index) rest ?rs ?w"
    proof (cases "is_http_error r")
      case True
      with h urls_loop_conflict [where srv = srv and w = w, OF False inb r]
      show ?thesis by simp
    next
      case nerr: False
      with urls_loop_success [where srv = srv and w = w, OF False inb r]
      show ?thesis by simp
    qed
    from Cons.IH [OF len, of ?rs ?w] obtain rs w' where
      "urls_loop srv campaigns cid sr (Suc index) rest ?rs ?w = (Inr rs, w')"
      "http_requests (trace w') = http_requests (trace ?w)
           @ map (\<lambda>k. Post_json codes_url
                    (codes_data cid (str_cell (campaigns ! (Suc index + k))) (rest ! k) sr))
               (filter (\<lambda>k. rest ! k \<noteq> []) [0..<length rest])"
      by blast
    with False show ?thesis
      unfolding pos step by (simp add: http_requests_append)
  qed
qed


text \<open>
  C6. An empty URL-request sequence is passed over: the loop of \<^verbatim>\<open>_generate_urls\<close>
  goes on with the next position, the same dict and the same world, so nothing is sent
  and nothing is raised for it, and the sequences after it are processed. Every request
  the call sends is the batch request of a non-empty sequence, for the campaign at the
  same position; every key of the returned dict is the name of such a campaign. The
  other campaigns are processed: when the service answers every request with 409 or
  with no error status, the call returns and the requests it has sent are exactly the
  batch requests of the non-empty sequences, in the order of the list.
\<close>

theorem C6_empty_sequence_skipped:
  "urls_loop srv campaigns cid sr index ([] # rest) responses w =
     urls_loop srv campaigns cid sr (Suc index) rest responses w
   \<and> (urls_loop srv campaigns cid sr 0 pre [] w = (Inr rs_pre, w_pre) \<longrightarrow>
        generate_urls srv (pre @ [] # post) campaigns cid sr w =
          urls_loop srv campaigns cid sr (Suc (length pre)) post rs_pre w_pre)
   \<and> (\<exists>es. trace (snd (generate_urls srv flowcodes campaigns cid sr w)) = trace w @ es
        \<and> (\<forall>e \<in> set es. \<exists>k res. k < length flowcodes \<and> flowcodes ! k \<noteq> []
              \<and> k < length campaigns
              \<and> e = Http (Post_json codes_url
                    (codes_data cid (str_cell (campaigns ! k)) (flowcodes ! k) sr)) res)
        \<and> (\<forall>rs. fst (generate_urls srv flowcodes campaigns cid sr w) = Inr rs \<longrightarrow>
              fst ` set rs \<subseteq> {str_cell (campaigns ! k) | k.
                 k < length flowcodes \<and> flowcodes ! k \<noteq> [] \<and> k < length campaigns}))
   \<and> ((\<forall>h rq. \<exists>r. srv h rq = Resp r \<and> (is_http_error r \<longrightarrow> status_code r = 409))
        \<and> length flowcodes \<le> length campaigns \<longrightarrow>
        (\<exists>rs w'. generate_urls srv flowcodes campaigns cid sr w = (Inr rs, w')
           \<and> http_requests (trace w') = http_requests (trace w)
               @ map (\<lambda>k. Post_json codes_url
                        (codes_data cid (str_cell (campaigns ! k)) (flowcodes ! k) sr))
                   (filter (\<lambda>k. flowcodes ! k \<noteq> []) [0..<length flowcodes])))"
proof (intro conjI impI)
  show "urls_loop srv campaigns cid sr index ([] # rest) responses w =
     urls_loop srv campaigns cid sr (Suc index) rest responses w"
    by (rule urls_loop_empty)
next
  assume "urls_loop srv campaigns cid sr 0 pre [] w = (Inr rs_pre, w_pre)"
  from urls_loop_append [OF this, of "[] # post"]
  show "generate_urls srv (pre @ [] # post) campaigns cid sr w =
          urls_loop srv campaigns cid sr (Suc (length pre)) post rs_pre w_pre"
    by (simp add: generate_urls_def urls_loop_empty)
next
  from urls_loop_events [of srv campaigns cid sr 0 flowcodes "[]" w]
  obtain es where tr: "trace (snd (generate_urls srv flowcodes campaigns cid sr w)) = trace w @ es"
    and ev: "\<forall>e \<in> set es. batch_event campaigns cid sr 0 flowcodes e"
    and keys: "\<forall>rs. fst (generate_urls srv flowcodes campaigns cid sr w) = Inr rs \<longrightarrow>
        fst ` set rs = set (succeeded_names es)"
    unfolding generate_urls_def by auto
  from succeeded_names_batch [OF ev]
  have sub: "set (succeeded_names es) \<subseteq> {str_cell (campaigns ! k) | k.
                 k < length flowcodes \<and> flowcodes ! k \<noteq> [] \<and> k < length campaigns}"
    by simp
  have ev': "\<forall>e \<in> set es. \<exists>k res. k < length flowcodes \<and> flowcodes ! k \<noteq> []
              \<and> k < length campaigns
              \<and> e = Http (Post_json codes_url
                    (codes_data cid (str_cell (campaigns ! k)) (flowcodes ! k) sr)) res"
    using ev by (simp add: batch_event_def)
  have keys': "\<forall>rs. fst (generate_urls srv flowcodes campaigns cid sr w) = Inr rs \<longrightarrow>
        fst ` set rs \<subseteq> {str_cell (campaigns ! k) | k.
                 k < length flowcodes \<and> flowcodes ! k \<noteq> [] \<and> k < length campaigns}"
    using keys sub by simp
  from tr ev' keys'
  show "\<exists>es. trace (snd (generate_urls srv flowcodes campaigns cid sr w)) = trace w @ es
        \<and> (\<forall>e \<in> set es. \<exists>k res. k < length flowcodes \<and> flowcodes ! k \<noteq> []
              \<and> k < length campaigns
              \<and> e = Http (Post_json codes_url
                    (codes_data cid (str_cell (campaigns ! k)) (flowcodes ! k) sr)) res)
        \<and> (\<forall>rs. fst (generate_urls srv flowcodes campaigns cid sr w) = Inr rs \<longrightarrow>
              fst ` set rs \<subseteq> {str_cell (campaigns ! k) | k.
                 k < length flowcodes \<and> flowcodes ! k \<noteq> [] \<and> k < length campaigns})"
    by blast
next
  assume a: "(\<forall>h rq. \<exists>r. srv h rq = Resp r \<and> (is_http_error r \<longrightarrow> status_code r = 409))
        \<and> length flowcodes \<le> length campaigns"
  then have ok: "\<forall>h rq. \<exists>r. srv h rq = Resp r \<and> (is_http_error r \<longrightarrow> status_code r = 409)"
    and len: "0 + length flowcodes \<le> length campaigns"
    by simp_all
  from urls_loop_all_handled [OF ok len, of cid sr "[]" w]
  show "\<exists>rs w'. generate_urls srv flowcodes campaigns cid sr w = (Inr rs, w')
           \<and> http_requests (trace w') = http_requests (trace w)
               @ map (\<lambda>k. Post_json codes_url
                        (codes_data cid (str_cell (campaigns ! k)) (flowcodes ! k) sr))
                   (filter (\<lambda>k. flowcodes ! k \<noteq> []) [0..<length flowcodes])"
    by (simp add: generate_urls_def)
qed

theorem C6_witness:
  "generate_urls service [[], [url_record ''x1'' ''http://example.com/id=x1'']]
     [CNaN, CStr ''A''] (PStr ''id'') [] world0 =
   (Inr [(''A'', \<lparr>status_code = 200,
            json_body = Some (PList [PDict [(''id'', PStr ''x1''),
              (''images'', PList [PDict [(''url'', PStr ''img:x1'')]])]]),
            content = []\<rparr>)],
    world0\<lparr>trace :=
      [Http (Post_json codes_url
               (PDict [(''client_id'', PStr ''id''), (''campaign_name'', PStr ''A''),
                  (''urls'', PList [url_record ''x1'' ''http://example.com/id=x1''])]))
         (Resp \<lparr>status_code = 200,
            json_body = Some (PList [PDict [(''id'', PStr ''x1''),
              (''images'', PList [PDict [(''url'', PStr ''img:x1'')]])]]),
            content = []\<rparr>)]\<rparr>)
   \<and> generate_urls service [[]] [CNaN] (PStr ''id'') [] world0 = (Inr [], world0)"
  using
    C6_empty_sequence_skipped [where srv = service and campaigns = "[CNaN, CStr ''A'']"
      and cid = "PStr ''id''" and sr = "[]" and pre = "[]" and rs_pre = "[]" and w = world0
      and w_pre = world0 and post = "[[url_record ''x1'' ''http://example.com/id=x1'']]"]
    C6_empty_sequence_skipped [where srv = service and campaigns = "[CNaN]"
      and cid = "PStr ''id''" and sr = "[]" and pre = "[]" and rs_pre = "[]" and w = world0
      and w_pre = world0 and post = "[]"]
  by (simp add: urls_loop_nil urls_loop.simps send_def codes_data_def url_record_def
      is_http_error_def world0_def plain_repr_def)

section \<open>Properties of the file system\<close>

lemma mkdir_result:
  "mkdir p w = (r, w') \<Longrightarrow>
   (\<exists>e. r = Inl e \<and> w' = w)
   \<or> (\<exists>t. r = Inr () \<and> w' = w\<lparr>trace := trace w @ [Mkdir p], dirs := insert t (dirs w)\<rparr>)"
  by (auto simp: mkdir_def split: if_splits sum.splits)

lemma write_file_result:
  "write_file p bytes w = (r, w') \<Longrightarrow>
   (\<exists>e. r = Inl e \<and> w' = w)
   \<or> (\<exists>t. r = Inr () \<and> w' = w\<lparr>trace := trace w @ [Write p bytes],
                                  files := (files w)(t \<mapsto> bytes)\<rparr>)"
  by (auto simp: write_file_def split: if_splits sum.splits)

lemma fs_grows_refl: "fs_grows w w"
  by (simp add: fs_grows_def)

lemma fs_grows_trans: "fs_grows w w' \<Longrightarrow> fs_grows w' w'' \<Longrightarrow> fs_grows w w''"
  unfolding fs_grows_def by (metis subset_trans)

lemma mkdir_grows: "fs_grows w (snd (mkdir p w))"
proof -
  obtain r w' where m: "mkdir p w = (r, w')" by (cases "mkdir p w")
  from mkdir_result [OF m] show ?thesis
    by (auto simp: m fs_grows_def)
qed

lemma write_file_grows: "fs_grows w (snd (write_file p bytes w))"
proof -
  obtain r w' where m: "write_file p bytes w = (r, w')" by (cases "write_file p bytes w")
  from write_file_result [OF m] show ?thesis
    by (auto simp: m fs_grows_def)
qed

lemma send_grows: "fs_grows w (snd (send srv rq w))"
  by (simp add: send_def fs_grows_def)

lemma walk_mono:
  "fs_grows w w' \<Longrightarrow> walk w p cur cs = Inr d \<Longrightarrow> walk w' p' cur cs = Inr d"
proof (induction cs arbitrary: cur)
  case Nil
  then show ?case by simp
next
  case (Cons c cs)
  show ?case
  proof (cases "c = [] \<or> c = ''.''")
    case True
    with Cons show ?thesis by auto
  next
    case False
    show ?thesis
    proof (cases "c = ''..''")
      case True
      with False Cons show ?thesis by auto
    next
      case named: False
      with False Cons.prems(2) have "cur @ [c] \<in> dirs w"
        and "walk w p (cur @ [c]) cs = Inr d"
        by (auto split: if_splits)
      with Cons.prems(1) Cons.IH [of "cur @ [c]"] False named show ?thesis
        by (auto simp: fs_grows_def)
    qed
  qed
qed

lemma start_dir_grows: "fs_grows w w' \<Longrightarrow> start_dir w' p = start_dir w p"
  by (simp add: start_dir_def fs_grows_def)

lemma path_exists_mono:
  assumes g: "fs_grows w w'" and e: "path_exists w p"
  shows "path_exists w' p"
proof -
  from e obtain dir where p: "p \<noteq> []"
    and wk: "walk w p (start_dir w p) (butlast (split_path p)) = Inr dir"
    and l: "last (split_path p) = [] \<or> last (split_path p) = ''.''
           \<or> last (split_path p) = ''..''
           \<or> dir @ [last (split_path p)] \<in> dirs w
           \<or> dir @ [last (split_path p)] \<in> dom (files w)"
    by (auto simp: path_exists_def split: sum.splits)
  from walk_mono [OF g wk] start_dir_grows [OF g]
  have wk': "walk w' p (start_dir w' p) (butlast (split_path p)) = Inr dir" by simp
  from l g have "last (split_path p) = [] \<or> last (split_path p) = ''.''
           \<or> last (split_path p) = ''..''
           \<or> dir @ [last (split_path p)] \<in> dirs w'
           \<or> dir @ [last (split_path p)] \<in> dom (files w')"
    by (auto simp: fs_grows_def)
  with p wk' show ?thesis by (simp add: path_exists_def)
qed


lemma walk_append:
  "walk w p cur (xs @ ys) =
     (case walk w p cur xs of Inl e \<Rightarrow> Inl e | Inr d \<Rightarrow> walk w p d ys)"
  by (induction xs arbitrary: cur) auto

lemma walk_empties: "\<forall>c \<in> set ys. c = [] \<Longrightarrow> walk w p d ys = Inr d"
  by (induction ys) auto

lemma strip_slashes_split:
  "cs = strip_slashes cs @ rev (takeWhile (\<lambda>c. c = []) (rev cs))"
proof -
  have "rev (takeWhile (\<lambda>c. c = []) (rev cs) @ dropWhile (\<lambda>c. c = []) (rev cs)) = cs"
    by simp
  then show ?thesis by (simp only: rev_append strip_slashes_def)
qed

lemma last_strip_slashes: "strip_slashes cs \<noteq> [] \<Longrightarrow> last (strip_slashes cs) \<noteq> []"
  using hd_dropWhile [of "\<lambda>c. c = []" "rev cs"]
  by (simp add: strip_slashes_def last_rev)

lemma walk_last:
  assumes "xs \<noteq> []" and "walk w p cur xs = Inr d" and "last xs \<noteq> []"
  obtains d0 where "walk w p cur (butlast xs) = Inr d0"
    and "last xs = ''.'' \<or> last xs = ''..'' \<or> d0 @ [last xs] \<in> dirs w"
proof -
  from assms(1) have xs: "xs = butlast xs @ [last xs]" by simp
  from assms(2) have "walk w p cur (butlast xs @ [last xs]) = Inr d"
    using xs by simp
  then obtain d0 where d0: "walk w p cur (butlast xs) = Inr d0"
    and st: "walk w p d0 [last xs] = Inr d"
    by (auto simp: walk_append split: sum.splits)
  from st assms(3) have "last xs = ''.'' \<or> last xs = ''..'' \<or> d0 @ [last xs] \<in> dirs w"
    by (auto split: if_splits)
  with d0 show ?thesis by (rule that)
qed

text \<open>A path that exists cannot be made a directory.\<close>

lemma mkdir_existing:
  assumes e: "path_exists w p"
  shows "mkdir p w = (Inl (FileExistsError p), w)"
proof -
  let ?cs = "split_path p"
  let ?ss = "strip_slashes ?cs"
  let ?tl = "rev (takeWhile (\<lambda>c. c = []) (rev ?cs))"
  from e obtain dir where p: "p \<noteq> []"
    and wk: "walk w p (start_dir w p) (butlast ?cs) = Inr dir"
    and l: "last ?cs = [] \<or> last ?cs = ''.'' \<or> last ?cs = ''..''
           \<or> dir @ [last ?cs] \<in> dirs w \<or> dir @ [last ?cs] \<in> dom (files w)"
    by (auto simp: path_exists_def split: sum.splits)
  have cs: "?cs = ?ss @ ?tl" by (rule strip_slashes_split)
  have tl: "\<forall>c \<in> set ?tl. c = []"
    by (auto dest: set_takeWhileD)
  show ?thesis
  proof (cases "?ss = []")
    case True
    with p show ?thesis by (simp add: mkdir_def)
  next
    case False
    then have ln: "last ?ss \<noteq> []" by (rule last_strip_slashes)
    have "\<exists>d0. walk w p (start_dir w p) (butlast ?ss) = Inr d0
        \<and> (last ?ss = ''.'' \<or> last ?ss = ''..'' \<or> d0 @ [last ?ss] \<in> dirs w
            \<or> d0 @ [last ?ss] \<in> dom (files w))"
    proof (cases "?tl = []")
      case True
      with cs have "?cs = ?ss" by simp
      with wk l ln show ?thesis by auto
    next
      case nonempty: False
      from cs have "butlast ?cs = butlast (?ss @ ?tl)" by simp
      also have "\<dots> = ?ss @ butlast ?tl"
        using nonempty by (simp add: butlast_append)
      finally have b: "butlast ?cs = ?ss @ butlast ?tl" .
      have "\<forall>c \<in> set (butlast ?tl). c = []"
        using tl by (meson in_set_butlastD)
      then have skip: "walk w p d (butlast ?tl) = Inr d" for d
        by (rule walk_empties)
      from wk have "walk w p (start_dir w p) (?ss @ butlast ?tl) = Inr dir"
        by (simp only: b)
      then have c: "(case walk w p (start_dir w p) ?ss of
            Inl e \<Rightarrow> Inl e | Inr d \<Rightarrow> walk w p d (butlast ?tl)) = Inr dir"
        by (simp only: walk_append)
      have "walk w p (start_dir w p) ?ss = Inr dir"
      proof (cases "walk w p (start_dir w p) ?ss")
        case (Inl e)
        with c show ?thesis by (simp only: sum.case)
      next
        case (Inr d)
        with c have "walk w p d (butlast ?tl) = Inr dir" by (simp only: sum.case)
        with skip [of d] Inr show ?thesis by simp
      qed
      from walk_last [OF False this ln] show ?thesis by blast
    qed
    then obtain d0 where "walk w p (start_dir w p) (butlast ?ss) = Inr d0"
      and "last ?ss = ''.'' \<or> last ?ss = ''..'' \<or> d0 @ [last ?ss] \<in> dirs w
            \<or> d0 @ [last ?ss] \<in> dom (files w)"
      by blast
    with p False show ?thesis by (auto simp: mkdir_def)
  qed
qed

section \<open>Properties of the Response Processor\<close>




section \<open>Properties of the Image Materializer\<close>





lemma mkdir_trace:
  "trace (snd (mkdir p w)) = trace w @ (if fst (mkdir p w) = Inr () then [Mkdir p] else [])"
proof -
  obtain r w' where m: "mkdir p w = (r, w')" by (cases "mkdir p w")
  from mkdir_result [OF m] show ?thesis by (auto simp: m)
qed






section \<open>Conflicts in the Code Generator Client\<close>




end
